theory Spec2Isabelle
  imports Complex_Main "HOL-Library.AList" "HOL-Library.Multiset" "HOL-Library.Sublist"
begin

section \<open>Python and numpy primitives\<close>

text \<open>
  The sequence under analysis is a Python list of floats. Its values are modelled as
  real numbers, which is the input domain the specification gives (an ordered list of
  real numbers); rounding, infinities and NaN are outside the model. Indices are Python
  integers and are modelled as \<^typ>\<open>int\<close>.
\<close>

datatype py_error = TypeError | IndexError

type_synonym extremum = "int \<times> real"

text \<open>A pair \<open>(minima, maxima)\<close>, in the order every detection function returns it.\<close>

type_synonym extrema = "extremum list \<times> extremum list"

text \<open>\<open>xs[i]\<close>: an index below zero counts from the end, and a miss raises.\<close>

definition py_get :: "'a list \<Rightarrow> int \<Rightarrow> py_error + 'a" where
  "py_get xs i =
     (if 0 \<le> i \<and> i < int (length xs) then Inr (xs ! nat i)
      else if i < 0 \<and> - int (length xs) \<le> i then Inr (xs ! nat (int (length xs) + i))
      else Inl IndexError)"

text \<open>
  \<open>xs[a:b]\<close>: each bound below zero has the length added, and is then clipped to
  \<open>[0, len]\<close>; an empty or inverted range gives the empty list.
\<close>

definition py_bound :: "nat \<Rightarrow> int \<Rightarrow> nat" where
  "py_bound n a = (if a < 0 then nat (max 0 (int n + a)) else min n (nat a))"

definition py_slice :: "'a list \<Rightarrow> int \<Rightarrow> int \<Rightarrow> 'a list" where
  "py_slice xs a b =
     (let lo = py_bound (length xs) a; hi = py_bound (length xs) b
      in take (hi - lo) (drop lo xs))"

text \<open>\<open>np.mean\<close>, \<open>np.std\<close> (population standard deviation) and \<open>np.diff\<close>.\<close>

definition np_mean :: "real list \<Rightarrow> real" where
  "np_mean xs = sum_list xs / real (length xs)"

definition np_std :: "real list \<Rightarrow> real" where
  "np_std xs = sqrt (np_mean (map (\<lambda>x. (x - np_mean xs)\<^sup>2) xs))"

fun np_diff :: "real list \<Rightarrow> real list" where
  "np_diff (x # y # ys) = (y - x) # np_diff (y # ys)"
| "np_diff _ = []"

section \<open>Detection strategies\<close>

text \<open>
  The keyword arguments a caller may pass on to a strategy: \<open>threshold\<close> and
  \<open>window_size\<close>, each absent or present.
\<close>

record kwargs =
  kw_threshold :: "real option"
  kw_window_size :: "int option"

definition threshold_of :: "kwargs \<Rightarrow> real" where
  "threshold_of kw = (case kw_threshold kw of None \<Rightarrow> 0.0001 | Some t \<Rightarrow> t)"

definition window_size_of :: "kwargs \<Rightarrow> int" where
  "window_size_of kw = (case kw_window_size kw of None \<Rightarrow> 3 | Some w \<Rightarrow> w)"

subsection \<open>Simple\<close>

definition simple_step :: "real list \<Rightarrow> real \<Rightarrow> extrema \<Rightarrow> nat \<Rightarrow> extrema" where
  "simple_step data threshold acc i =
     (let minima = fst acc; maxima = snd acc;
          prev_val = data ! (i - 1); curr_val = data ! i; next_val = data ! (i + 1)
      in if curr_val > prev_val + threshold \<and> curr_val \<ge> next_val - threshold
         then (minima, maxima @ [(int i, curr_val)])
         else if curr_val < prev_val - threshold \<and> curr_val \<le> next_val + threshold
         then (minima @ [(int i, curr_val)], maxima)
         else (minima, maxima))"

definition detect_simple :: "real list \<Rightarrow> real \<Rightarrow> extrema" where
  "detect_simple data threshold =
     (if length data < 3 then ([], [])
      else foldl (simple_step data threshold) ([], []) [1..<length data - 1])"

subsection \<open>Window\<close>

text \<open>
  The window size is whatever integer the caller passed. The loop reads \<open>data[i]\<close> and
  slices with Python's rules, so an index that runs out of the list raises
  \<open>IndexError\<close> and ends the call.
\<close>

fun window_loop :: "real list \<Rightarrow> int \<Rightarrow> int list \<Rightarrow> extrema \<Rightarrow> py_error + extrema" where
  "window_loop data window_size [] acc = Inr acc"
| "window_loop data window_size (i # rest) acc =
     (case py_get data i of
        Inl e \<Rightarrow> Inl e
      | Inr current_value \<Rightarrow>
          (let left_window = py_slice data (i - window_size) i;
               right_window = py_slice data (i + 1) (i + window_size + 1);
               is_local_max = list_all (\<lambda>val. current_value \<ge> val) (left_window @ right_window);
               is_local_min = list_all (\<lambda>val. current_value \<le> val) (left_window @ right_window)
           in window_loop data window_size rest
                (if is_local_max then (fst acc, snd acc @ [(i, current_value)])
                 else if is_local_min then (fst acc @ [(i, current_value)], snd acc)
                 else acc)))"

definition detect_window :: "real list \<Rightarrow> int \<Rightarrow> py_error + extrema" where
  "detect_window data window_size =
     (if int (length data) < window_size + 2 then Inr ([], [])
      else window_loop data window_size
             [window_size .. int (length data) - window_size - 1] ([], []))"

subsection \<open>Slope\<close>

definition slope_step :: "real list \<Rightarrow> real list \<Rightarrow> real \<Rightarrow> extrema \<Rightarrow> nat \<Rightarrow> extrema" where
  "slope_step data slopes threshold acc i =
     (let minima = fst acc; maxima = snd acc;
          prev_slope = slopes ! (i - 1); curr_slope = slopes ! i
      in if \<bar>curr_slope\<bar> < threshold then (minima, maxima)
         else if prev_slope > threshold \<and> curr_slope < - threshold
         then (minima, maxima @ [(int i, data ! i)])
         else if prev_slope < - threshold \<and> curr_slope > threshold
         then (minima @ [(int i, data ! i)], maxima)
         else (minima, maxima))"

definition detect_slope :: "real list \<Rightarrow> real \<Rightarrow> extrema" where
  "detect_slope data threshold =
     (if length data < 4 then ([], [])
      else let slopes = map (\<lambda>i. data ! (i + 1) - data ! i) [0..<length data - 1]
           in foldl (slope_step data slopes threshold) ([], []) [1..<length slopes - 1])"

subsection \<open>Alternating\<close>

text \<open>The tag \<open>'max'\<close> or \<open>'min'\<close> that the alternating strategies attach to a candidate.\<close>

datatype kind = MaxK | MinK

type_synonym tagged = "kind \<times> int \<times> real"

definition alternating_step :: "real list \<Rightarrow> real \<Rightarrow> extrema \<Rightarrow> nat \<Rightarrow> extrema" where
  "alternating_step data threshold acc i =
     (let all_minima = fst acc; all_maxima = snd acc;
          prev_val = data ! (i - 1); curr_val = data ! i; next_val = data ! (i + 1)
      in if curr_val > prev_val + threshold \<and> curr_val > next_val + threshold \<and>
            curr_val > data ! (i - 2) + threshold \<and> curr_val > data ! (i + 2) + threshold
         then (all_minima, all_maxima @ [(int i, curr_val)])
         else if curr_val < prev_val - threshold \<and> curr_val < next_val - threshold \<and>
            curr_val < data ! (i - 2) - threshold \<and> curr_val < data ! (i + 2) - threshold
         then (all_minima @ [(int i, curr_val)], all_maxima)
         else (all_minima, all_maxima))"

text \<open>
  The candidates of both kinds in one list, maxima first, then sorted by index with
  Python's stable \<open>list.sort(key=...)\<close>.
\<close>

definition merge_tagged :: "extremum list \<Rightarrow> extremum list \<Rightarrow> tagged list" where
  "merge_tagged maxima minima =
     sort_key (\<lambda>x. fst (snd x))
       (map (\<lambda>(idx, val). (MaxK, idx, val)) maxima @ map (\<lambda>(idx, val). (MinK, idx, val)) minima)"

definition alternating_walk_step :: "real \<Rightarrow> tagged list \<Rightarrow> tagged \<Rightarrow> tagged list" where
  "alternating_walk_step threshold extrema c =
     (let typ = fst c; val = snd (snd c)
      in if extrema = [] then extrema @ [c]
         else let last_type = fst (last extrema)
              in if typ \<noteq> last_type
                 then let last_val = snd (snd (last extrema))
                      in if typ = MaxK \<and> val > last_val + threshold then extrema @ [c]
                         else if typ = MinK \<and> val < last_val - threshold then extrema @ [c]
                         else extrema
                 else extrema)"

text \<open>The two comprehensions that split the accepted list by tag; minima come first.\<close>

definition split_tagged :: "tagged list \<Rightarrow> extrema" where
  "split_tagged extrema =
     (map snd (filter (\<lambda>x. fst x = MinK) extrema), map snd (filter (\<lambda>x. fst x = MaxK) extrema))"

definition detect_alternating :: "real list \<Rightarrow> real \<Rightarrow> extrema" where
  "detect_alternating data threshold =
     (if length data < 5 then ([], [])
      else let cands = foldl (alternating_step data threshold) ([], []) [2..<length data - 2];
               all_extrema = merge_tagged (snd cands) (fst cands)
           in split_tagged (foldl (alternating_walk_step threshold) [] all_extrema))"

subsection \<open>Enhanced\<close>

text \<open>
  The inner loops over \<open>range(i-3, i+4)\<close> clear a flag at the first neighbour that is
  not strictly below (above) the current value; the flag survives exactly when every
  neighbour passes.
\<close>

definition is_max_at :: "real list \<Rightarrow> nat \<Rightarrow> bool" where
  "is_max_at data i = list_all (\<lambda>j. \<not> (j \<noteq> i \<and> data ! j \<ge> data ! i)) [i - 3..<i + 4]"

definition is_min_at :: "real list \<Rightarrow> real \<Rightarrow> nat \<Rightarrow> bool" where
  "is_min_at data min_threshold i =
     (if data ! i > min_threshold then False
      else list_all (\<lambda>j. \<not> (j \<noteq> i \<and> data ! j \<le> data ! i)) [i - 3..<i + 4])"

definition potential_step :: "real list \<Rightarrow> real \<Rightarrow> extrema \<Rightarrow> nat \<Rightarrow> extrema" where
  "potential_step data min_threshold acc i =
     (let potential_maxima = (if is_max_at data i then snd acc @ [(int i, data ! i)] else snd acc);
          potential_minima = (if is_min_at data min_threshold i then fst acc @ [(int i, data ! i)]
                              else fst acc)
      in (potential_minima, potential_maxima))"

definition enhanced_walk_step :: "real \<Rightarrow> real \<Rightarrow> tagged list \<Rightarrow> tagged \<Rightarrow> tagged list" where
  "enhanced_walk_step threshold min_threshold final_extrema c =
     (let typ = fst c; idx = fst (snd c); val = snd (snd c)
      in if final_extrema = [] then final_extrema @ [c]
         else let last_type = fst (last final_extrema);
                  last_idx = fst (snd (last final_extrema));
                  last_val = snd (snd (last final_extrema))
              in if typ \<noteq> last_type
                 then let distance = idx - last_idx; value_change = \<bar>val - last_val\<bar>
                      in if distance \<ge> 2 \<and> value_change \<ge> threshold
                         then if typ = MinK \<and> val \<le> min_threshold \<and> val < last_val - threshold * 2
                              then final_extrema @ [c]
                              else if typ = MaxK \<and> val > last_val + threshold * 2
                              then final_extrema @ [c]
                              else final_extrema
                         else final_extrema
                 else final_extrema)"

definition detect_enhanced :: "real list \<Rightarrow> real \<Rightarrow> extrema" where
  "detect_enhanced data threshold =
     (if length data < 7 then ([], [])
      else let min_val = Min (set data); max_val = Max (set data);
               data_range = max_val - min_val;
               min_threshold = min 0.4 (min_val + data_range * 0.3);
               cands = foldl (potential_step data min_threshold) ([], []) [3..<length data - 3];
               all_extrema = merge_tagged (snd cands) (fst cands)
           in split_tagged (foldl (enhanced_walk_step threshold min_threshold) [] all_extrema))"

subsection \<open>Strict\<close>

definition strict_walk_step :: "real \<Rightarrow> real \<Rightarrow> tagged list \<Rightarrow> tagged \<Rightarrow> tagged list" where
  "strict_walk_step threshold min_threshold final_extrema c =
     (let typ = fst c; idx = fst (snd c); val = snd (snd c)
      in if final_extrema = []
         then if typ = MaxK \<or> (typ = MinK \<and> val \<le> min_threshold) then final_extrema @ [c]
              else final_extrema
         else let last_type = fst (last final_extrema);
                  last_idx = fst (snd (last final_extrema));
                  last_val = snd (snd (last final_extrema))
              in if typ \<noteq> last_type
                 then let distance = idx - last_idx; value_change = \<bar>val - last_val\<bar>
                      in if distance \<ge> 3 \<and> value_change \<ge> threshold
                         then if typ = MinK \<and> val \<le> min_threshold \<and> val < last_val - threshold * 3
                              then final_extrema @ [c]
                              else if typ = MaxK \<and> val > last_val + threshold * 3
                              then final_extrema @ [c]
                              else final_extrema
                         else final_extrema
                 else final_extrema)"

definition detect_strict :: "real list \<Rightarrow> real \<Rightarrow> extrema" where
  "detect_strict data threshold =
     (if length data < 7 then ([], [])
      else let min_threshold = 0.4;
               cands = foldl (potential_step data min_threshold) ([], []) [3..<length data - 3];
               all_extrema = merge_tagged (snd cands) (fst cands)
           in split_tagged (foldl (strict_walk_step threshold min_threshold) [] all_extrema))"

section \<open>Characteristics and method selection\<close>

record characteristics =
  ch_length :: nat
  ch_min_val :: real
  ch_max_val :: real
  ch_mean_val :: real
  ch_std_val :: real
  ch_range_val :: real
  ch_noise_level :: real
  ch_variability :: real
  ch_extrema_density :: real
  ch_is_oscillatory :: bool
  ch_has_plateaus :: bool
  ch_estimated_extrema_count :: nat

definition is_oscillatory_pattern :: "real list \<Rightarrow> bool" where
  "is_oscillatory_pattern data =
     (if length data < 10 then False
      else let diffs = np_diff data;
               sign_changes = length (filter (\<lambda>d. d \<noteq> 0) (np_diff (map sgn diffs)));
               change_rate = (if length diffs > 0 then real sign_changes / real (length diffs) else 0)
           in change_rate > 0.3)"

text \<open>The loop state is \<open>(consecutive_similar, max_consecutive)\<close>.\<close>

definition plateau_step :: "real \<Rightarrow> nat \<times> nat \<Rightarrow> real \<Rightarrow> nat \<times> nat" where
  "plateau_step plateau_threshold st diff =
     (if diff < plateau_threshold then (fst st + 1, max (snd st) (fst st + 1)) else (0, snd st))"

definition has_plateaus :: "real list \<Rightarrow> real \<Rightarrow> bool" where
  "has_plateaus data noise_level =
     (if length data < 5 then False
      else let diffs = map abs (np_diff data);
               plateau_threshold = noise_level * 0.5
           in snd (foldl (plateau_step plateau_threshold) (0, 0) diffs) \<ge> 5)"

text \<open>
  An empty sequence gives the empty dictionary, here \<open>None\<close>. For a sequence of one
  element numpy's standard deviation of the empty difference list is not a number; the
  model gives 0 there, and the detection entry point never asks for it (it analyses
  sequences of three elements or more).
\<close>

definition analyze_data_characteristics :: "real list \<Rightarrow> characteristics option" where
  "analyze_data_characteristics data =
     (if data = [] then None
      else let min_val = Min (set data); max_val = Max (set data);
               mean_val = np_mean data; std_val = np_std data;
               range_val = max_val - min_val;
               data_length = length data;
               noise_level = np_std (np_diff data);
               variability = (if range_val > 0 then std_val / range_val else 0);
               simple_extrema = detect_simple data (noise_level * 0.1);
               estimated_extrema_count = length (fst simple_extrema) + length (snd simple_extrema);
               extrema_density = (if data_length > 0
                                  then real estimated_extrema_count / real data_length else 0)
           in Some \<lparr> ch_length = data_length, ch_min_val = min_val, ch_max_val = max_val,
                     ch_mean_val = mean_val, ch_std_val = std_val, ch_range_val = range_val,
                     ch_noise_level = noise_level, ch_variability = variability,
                     ch_extrema_density = extrema_density,
                     ch_is_oscillatory = is_oscillatory_pattern data,
                     ch_has_plateaus = has_plateaus data noise_level,
                     ch_estimated_extrema_count = estimated_extrema_count \<rparr>)"

text \<open>\<open>characteristics.get(key, default)\<close>: the default stands in for the empty dictionary.\<close>

definition get_or :: "characteristics option \<Rightarrow> (characteristics \<Rightarrow> 'a) \<Rightarrow> 'a \<Rightarrow> 'a" where
  "get_or characteristics field dflt = (case characteristics of None \<Rightarrow> dflt | Some c \<Rightarrow> field c)"

definition select_optimal_method :: "characteristics option \<Rightarrow> string" where
  "select_optimal_method characteristics =
     (let len = get_or characteristics ch_length 0;
          variability = get_or characteristics ch_variability 0;
          extrema_density = get_or characteristics ch_extrema_density 0;
          is_oscillatory = get_or characteristics ch_is_oscillatory False;
          has_plateaus = get_or characteristics ch_has_plateaus False;
          noise_level = get_or characteristics ch_noise_level 0
      in if len < 10 then ''simple''
         else if is_oscillatory \<and> extrema_density > 0.1 then ''alternating''
         else if has_plateaus then ''window''
         else if noise_level > get_or characteristics ch_std_val 1 * 0.1 then ''enhanced''
         else if extrema_density > 0.2 then ''strict''
         else if variability < 0.1 then ''slope''
         else ''enhanced'')"

section \<open>Post-processing of the detected extrema\<close>

text \<open>
  \<open>{idx: val for idx, val in extrema}\<close>: a key seen again keeps its place and takes the
  later value. \<open>sorted(d.items())\<close> compares tuples; the keys of a dictionary differ, so
  the order is the order of the indices.
\<close>

definition dict_of :: "extremum list \<Rightarrow> extremum list" where
  "dict_of extrema = foldl (\<lambda>d e. AList.update (fst e) (snd e) d) [] extrema"

definition sorted_items :: "extremum list \<Rightarrow> extremum list" where
  "sorted_items d = sort_key fst d"

definition remove_close_step :: "int \<Rightarrow> extremum list \<Rightarrow> extremum \<Rightarrow> extremum list" where
  "remove_close_step min_distance filtered e =
     (let current_idx = fst e; last_kept_idx = fst (last filtered)
      in if current_idx - last_kept_idx \<ge> min_distance then filtered @ [e] else filtered)"

definition remove_close_extrema :: "extremum list \<Rightarrow> int \<Rightarrow> extremum list" where
  "remove_close_extrema extrema min_distance =
     (case extrema of
        [] \<Rightarrow> []
      | first # rest \<Rightarrow> foldl (remove_close_step min_distance) [first] rest)"

text \<open>
  The slice \<open>local_data\<close> around an index, and the test one extremum has to pass in the
  loop of \<open>_filter_by_quality\<close>.
\<close>

definition local_data_of :: "real list \<Rightarrow> int \<Rightarrow> real list" where
  "local_data_of data idx =
     (let window_size = min 3 (int (length data) div 10);
          start_idx = max 0 (idx - window_size);
          end_idx = min (int (length data)) (idx + window_size + 1)
      in py_slice data start_idx end_idx)"

definition quality_ok :: "real list \<Rightarrow> real \<Rightarrow> bool \<Rightarrow> extremum \<Rightarrow> bool" where
  "quality_ok data noise_level is_minimum e =
     (let idx = fst e; val = snd e;
          local_data = local_data_of data idx
      in if local_data = [] then False
         else if is_minimum then val \<le> Min (set local_data) + noise_level * 2
         else val \<ge> Max (set local_data) - noise_level * 2)"

definition filter_by_quality :: "extremum list \<Rightarrow> real list \<Rightarrow> real \<Rightarrow> bool \<Rightarrow> extremum list" where
  "filter_by_quality extrema data noise_level is_minimum =
     (if extrema = [] then [] else filter (quality_ok data noise_level is_minimum) extrema)"

definition min_distance_of :: "real list \<Rightarrow> int" where
  "min_distance_of data = max 2 (int (length data) div 100)"

definition post_process_results ::
    "extremum list \<Rightarrow> extremum list \<Rightarrow> real list \<Rightarrow> characteristics option \<Rightarrow> extrema" where
  "post_process_results minima maxima data characteristics =
     (let minima1 = sorted_items (dict_of minima);
          maxima1 = sorted_items (dict_of maxima);
          min_distance = min_distance_of data;
          minima2 = remove_close_extrema minima1 min_distance;
          maxima2 = remove_close_extrema maxima1 min_distance;
          noise_level = get_or characteristics ch_noise_level 0
      in if noise_level > 0
         then (filter_by_quality minima2 data noise_level True,
               filter_by_quality maxima2 data noise_level False)
         else (minima2, maxima2))"

section \<open>The detection entry point\<close>

text \<open>
  The dispatch through the table of methods. Every strategy but Simple takes any further
  keyword; Simple takes \<open>threshold\<close> alone, so a call that passes \<open>window_size\<close> on to it
  raises \<open>TypeError\<close>. A name that is not in the table runs Enhanced.
\<close>

definition run_method :: "string \<Rightarrow> real list \<Rightarrow> kwargs \<Rightarrow> py_error + extrema" where
  "run_method method data kw =
     (if method = ''simple''
      then (if kw_window_size kw \<noteq> None then Inl TypeError
            else Inr (detect_simple data (threshold_of kw)))
      else if method = ''window'' then detect_window data (window_size_of kw)
      else if method = ''slope'' then Inr (detect_slope data (threshold_of kw))
      else if method = ''alternating'' then Inr (detect_alternating data (threshold_of kw))
      else if method = ''enhanced'' then Inr (detect_enhanced data (threshold_of kw))
      else if method = ''strict'' then Inr (detect_strict data (threshold_of kw))
      else Inr (detect_enhanced data (threshold_of kw)))"

definition detect_extrema :: "real list \<Rightarrow> string option \<Rightarrow> kwargs \<Rightarrow> py_error + extrema" where
  "detect_extrema data method kw =
     (if data = [] \<or> length data < 3 then Inr ([], [])
      else let characteristics = analyze_data_characteristics data;
               method1 = (case method of None \<Rightarrow> select_optimal_method characteristics
                          | Some m \<Rightarrow> m)
           in case run_method method1 data kw of
                Inl e \<Rightarrow> Inl e
              | Inr (minima, maxima) \<Rightarrow>
                  Inr (post_process_results minima maxima data characteristics))"

section \<open>Constraint filters\<close>

definition apply_threshold_filter ::
    "extremum list \<Rightarrow> extremum list \<Rightarrow> real \<Rightarrow> real \<Rightarrow> extrema" where
  "apply_threshold_filter minima maxima max_threshold min_threshold =
     (let filtered_maxima = (if max_threshold > 0
                             then filter (\<lambda>e. snd e \<ge> max_threshold) maxima else maxima);
          filtered_minima = (if min_threshold < 999
                             then filter (\<lambda>e. snd e \<le> min_threshold) minima else minima)
      in (filtered_minima, filtered_maxima))"

text \<open>
  \<open>sorted(xs, key=lambda x: abs(x[1]), reverse=True)\<close>: descending in the absolute
  value, and entries of equal key stay in their original order (Python keeps the sort
  stable under \<open>reverse=True\<close>). A stable ascending sort on the negated key is the same
  list.
\<close>

definition sorted_by_abs_desc :: "extremum list \<Rightarrow> extremum list" where
  "sorted_by_abs_desc xs = sort_key (\<lambda>x. - \<bar>snd x\<bar>) xs"

definition filter_results_by_count ::
    "extremum list \<Rightarrow> extremum list \<Rightarrow> int \<Rightarrow> int \<Rightarrow> string \<Rightarrow> extrema" where
  "filter_results_by_count minima maxima max_count_limit min_count_limit method =
     (if method \<in> set [''alternating'', ''enhanced'', ''strict''] then (minima, maxima)
      else let maxima1 = (if max_count_limit > 0 \<and> int (length maxima) > max_count_limit
                          then take (nat max_count_limit) (sorted_by_abs_desc maxima)
                          else maxima);
               minima1 = (if min_count_limit > 0 \<and> int (length minima) > min_count_limit
                          then take (nat min_count_limit) (sorted_by_abs_desc minima)
                          else minima)
           in (minima1, maxima1))"

section \<open>Manual selection\<close>

text \<open>A selection is the triple \<open>(index, x, y)\<close> stored at a click.\<close>

type_synonym selection = "int \<times> real \<times> real"

definition snap_max_step :: "real list \<Rightarrow> extremum \<Rightarrow> nat \<Rightarrow> extremum" where
  "snap_max_step data best i = (if data ! i > snd best then (int i, data ! i) else best)"

definition snap_min_step :: "real list \<Rightarrow> extremum \<Rightarrow> nat \<Rightarrow> extremum" where
  "snap_min_step data best i = (if data ! i < snd best then (int i, data ! i) else best)"

text \<open>
  The indices of \<open>range(start_idx, end_idx)\<close>; \<open>start_idx\<close> is never negative, and an
  \<open>end_idx\<close> at or below it gives no index.
\<close>

definition snap_window :: "real list \<Rightarrow> int \<Rightarrow> nat list" where
  "snap_window data selected_idx =
     (let window_size = 10;
          start_idx = max 0 (selected_idx - window_size);
          end_idx = min (int (length data)) (selected_idx + window_size + 1)
      in [nat start_idx..<nat end_idx])"

text \<open>The search for one selection; reading \<open>data[selected_idx]\<close> may raise.\<close>

definition snap_max :: "real list \<Rightarrow> int \<Rightarrow> py_error + extremum" where
  "snap_max data selected_idx =
     (case py_get data selected_idx of
        Inl e \<Rightarrow> Inl e
      | Inr v \<Rightarrow> Inr (foldl (snap_max_step data) (selected_idx, v) (snap_window data selected_idx)))"

definition snap_min :: "real list \<Rightarrow> int \<Rightarrow> py_error + extremum" where
  "snap_min data selected_idx =
     (case py_get data selected_idx of
        Inl e \<Rightarrow> Inl e
      | Inr v \<Rightarrow> Inr (foldl (snap_min_step data) (selected_idx, v) (snap_window data selected_idx)))"

text \<open>One of the two outer loops: a found pair is appended unless the list has it.\<close>

fun snap_all ::
    "(real list \<Rightarrow> int \<Rightarrow> py_error + extremum) \<Rightarrow> real list \<Rightarrow> selection list \<Rightarrow>
     extremum list \<Rightarrow> py_error + extremum list" where
  "snap_all snap data [] found = Inr found"
| "snap_all snap data (sel # rest) found =
     (case snap data (fst sel) of
        Inl e \<Rightarrow> Inl e
      | Inr p \<Rightarrow> snap_all snap data rest (if p \<in> set found then found else found @ [p]))"

definition find_extrema_around_selections ::
    "real list \<Rightarrow> selection list \<Rightarrow> selection list \<Rightarrow> py_error + extrema" where
  "find_extrema_around_selections data selected_maxima selected_minima =
     (case snap_all snap_max data selected_maxima [] of
        Inl e \<Rightarrow> Inl e
      | Inr maxima \<Rightarrow>
          (case snap_all snap_min data selected_minima [] of
             Inl e \<Rightarrow> Inl e
           | Inr minima \<Rightarrow> Inr (minima, maxima)))"

section \<open>Pairing maxima with minima\<close>

record difference_pair =
  pair_number :: int
  max_index :: int
  max_value :: real
  min_index :: int
  min_value :: real
  difference :: real

text \<open>
  What the pairing reads and writes of the application's state: the stored results of
  the last analysis (\<open>None\<close> for the empty dictionary) and the stored pairs.
\<close>

record analysis_results =
  res_minima :: "extremum list"
  res_maxima :: "extremum list"
  res_method :: string

record app_state =
  results :: "analysis_results option"
  difference_results :: "difference_pair list"

datatype message = Warning | Info nat

definition difference_step ::
    "extremum list \<Rightarrow> extremum list \<Rightarrow> difference_pair list \<Rightarrow> nat \<Rightarrow> difference_pair list" where
  "difference_step maxima_sorted minima_sorted acc i =
     (let max_idx = fst (maxima_sorted ! i); max_val = snd (maxima_sorted ! i);
          min_idx = fst (minima_sorted ! i); min_val = snd (minima_sorted ! i);
          diff = max_val - min_val
      in acc @ [\<lparr> pair_number = int i + 1, max_index = max_idx, max_value = max_val,
                  min_index = min_idx, min_value = min_val, difference = diff \<rparr>])"

definition build_pairs :: "extremum list \<Rightarrow> extremum list \<Rightarrow> difference_pair list" where
  "build_pairs maxima minima =
     (let maxima_sorted = sort_key fst maxima;
          minima_sorted = sort_key fst minima;
          min_len = min (length maxima_sorted) (length minima_sorted)
      in foldl (difference_step maxima_sorted minima_sorted) [] [0..<min_len])"

text \<open>
  The guard leaves at once, with a warning, when there are no stored results or one of
  the stored lists is empty; the stored pairs are reset only after it.
\<close>

definition calculate_differences :: "app_state \<Rightarrow> app_state \<times> message" where
  "calculate_differences st =
     (case results st of
        None \<Rightarrow> (st, Warning)
      | Some r \<Rightarrow>
          if res_maxima r = [] \<or> res_minima r = [] then (st, Warning)
          else let pairs = build_pairs (res_maxima r) (res_minima r)
               in (st\<lparr> difference_results := pairs \<rparr>, Info (length pairs)))"

section \<open>Properties of result lists\<close>

text \<open>
  The kinds of the returned extrema read in index order: the minima followed by the
  maxima, each tagged with its kind, sorted by index.
\<close>

definition kinds_in_index_order :: "extremum list \<Rightarrow> extremum list \<Rightarrow> kind list" where
  "kinds_in_index_order minima maxima =
     map fst (sort_key (\<lambda>x. fst (snd x)) (map (Pair MinK) minima @ map (Pair MaxK) maxima))"

text \<open>No two neighbours of a list of kinds are the same.\<close>

fun alternates :: "kind list \<Rightarrow> bool" where
  "alternates (x # y # ys) = (x \<noteq> y \<and> alternates (y # ys))"
| "alternates _ = True"

text \<open>No index occurs among the minima and among the maxima.\<close>

definition index_disjoint :: "extrema \<Rightarrow> bool" where
  "index_disjoint r = (fst ` set (fst r) \<inter> fst ` set (snd r) = {})"

section \<open>Verified properties\<close>

subsection \<open>Short sequences\<close>

lemma noise_level_of_analysis:
  "data \<noteq> [] \<Longrightarrow>
   get_or (analyze_data_characteristics data) ch_noise_level 0 = np_std (np_diff data)"
  by (simp add: analyze_data_characteristics_def get_or_def Let_def)

text \<open>
  Claim C2. A sequence of fewer than three elements, the empty one included, makes the
  detection entry point return the pair of two empty lists, as a value and not as an
  error, whatever the method and the keyword arguments are.
\<close>

theorem detect_extrema_short_sequence:
  "length data < 3 \<Longrightarrow> detect_extrema data method kw = Inr ([], [])"
  by (simp add: detect_extrema_def)

theorem detect_extrema_short_sequence_witness:
  "length [1, 2 :: real] < 3 \<and>
   detect_extrema [1, 2] (Some ''simple'') \<lparr> kw_threshold = Some 0.5, kw_window_size = Some 7 \<rparr>
     = Inr ([], [])"
  using detect_extrema_short_sequence [of "[1, 2]" "Some ''simple''"
          "\<lparr> kw_threshold = Some 0.5, kw_window_size = Some 7 \<rparr>"]
  by simp

subsection \<open>The Simple scenario\<close>

lemma simple_scenario_strategy:
  "detect_simple [0, 5, 1, 6, 2, 7, 0] 0.0001 = ([(2, 1), (4, 2)], [(1, 5), (3, 6), (5, 7)])"
  by (simp add: detect_simple_def simple_step_def)

lemma simple_scenario_noise: "np_std [5, - 4, 5, - 4, 5, - 7] = sqrt 26"
  by (simp add: np_std_def np_mean_def power2_eq_square)

lemma simple_scenario_spacing:
  "min_distance_of [0, 5, 1, 6, 2, 7, 0] = 2"
  "remove_close_extrema (sorted_items (dict_of [(2, 1), (4, 2)])) 2 = [(2, 1), (4, 2)]"
  "remove_close_extrema (sorted_items (dict_of [(1, 5), (3, 6), (5, 7)])) 2
     = [(1, 5), (3, 6), (5, 7)]"
  by code_simp+

lemma simple_scenario_windows:
  "local_data_of [0, 5, 1, 6, 2, 7, 0] 1 = [5]"
  "local_data_of [0, 5, 1, 6, 2, 7, 0] 2 = [1]"
  "local_data_of [0, 5, 1, 6, 2, 7, 0] 3 = [6]"
  "local_data_of [0, 5, 1, 6, 2, 7, 0] 4 = [2]"
  "local_data_of [0, 5, 1, 6, 2, 7, 0] 5 = [7]"
  by code_simp+

lemma simple_scenario_quality:
  "filter_by_quality [(2, 1), (4, 2)] [0, 5, 1, 6, 2, 7, 0] (sqrt 26) True = [(2, 1), (4, 2)]"
  "filter_by_quality [(1, 5), (3, 6), (5, 7)] [0, 5, 1, 6, 2, 7, 0] (sqrt 26) False
     = [(1, 5), (3, 6), (5, 7)]"
  by (simp_all add: filter_by_quality_def quality_ok_def simple_scenario_windows)

lemma simple_scenario_refine:
  "post_process_results [(2, 1), (4, 2)] [(1, 5), (3, 6), (5, 7)] [0, 5, 1, 6, 2, 7, 0]
      (analyze_data_characteristics [0, 5, 1, 6, 2, 7, 0])
   = ([(2, 1), (4, 2)], [(1, 5), (3, 6), (5, 7)])"
  unfolding post_process_results_def
  by (simp add: noise_level_of_analysis simple_scenario_noise simple_scenario_spacing
      simple_scenario_quality)

lemma simple_scenario_pipeline:
  "detect_extrema [0, 5, 1, 6, 2, 7, 0] (Some ''simple'')
       \<lparr> kw_threshold = Some 0.0001, kw_window_size = None \<rparr>
     = Inr ([(2, 1), (4, 2)], [(1, 5), (3, 6), (5, 7)])"
  using simple_scenario_strategy simple_scenario_refine
  by (simp add: detect_extrema_def run_method_def threshold_of_def)

text \<open>
  The Simple strategy accepts the threshold as its only keyword: a call of the entry point
  that passes a window size on to it ends in \<open>TypeError\<close>.
\<close>

lemma simple_rejects_window_size:
  "3 \<le> length data \<Longrightarrow>
   detect_extrema data (Some ''simple'') \<lparr> kw_threshold = t, kw_window_size = Some w \<rparr>
     = Inl TypeError"
  by (auto simp: detect_extrema_def run_method_def)

text \<open>
  Claim C3. On the sequence \<open>[0,5,1,6,2,7,0]\<close> with threshold \<open>0.0001\<close> the Simple
  strategy finds the minima \<open>[(2,1),(4,2)]\<close> and the maxima \<open>[(1,5),(3,6),(5,7)]\<close>, and
  the detection entry point, called with the method \<open>simple\<close> and that threshold,
  returns the same two lists after post-processing.
\<close>

theorem simple_scenario:
  "detect_simple [0, 5, 1, 6, 2, 7, 0] 0.0001 = ([(2, 1), (4, 2)], [(1, 5), (3, 6), (5, 7)]) \<and>
   detect_extrema [0, 5, 1, 6, 2, 7, 0] (Some ''simple'')
       \<lparr> kw_threshold = Some 0.0001, kw_window_size = None \<rparr>
     = Inr ([(2, 1), (4, 2)], [(1, 5), (3, 6), (5, 7)])"
  using simple_scenario_strategy simple_scenario_pipeline by simp

subsection \<open>The threshold filter\<close>

text \<open>
  Claim C7. With a positive maximum threshold every maximum the filter returns has a
  value at or above it, and the returned maxima are exactly the input maxima that do, in
  their order; with the threshold 0 the maxima come back unchanged. With a minimum
  threshold below 999 every returned minimum has a value at or below it, and the returned
  minima are exactly the input minima that do, in their order; from 999 on the minima come
  back unchanged.
\<close>

theorem threshold_filter_bounds:
  "(max_threshold > 0 \<longrightarrow>
      (\<forall>e \<in> set (snd (apply_threshold_filter minima maxima max_threshold min_threshold)).
          snd e \<ge> max_threshold) \<and>
      snd (apply_threshold_filter minima maxima max_threshold min_threshold)
        = filter (\<lambda>e. snd e \<ge> max_threshold) maxima) \<and>
   (max_threshold = 0 \<longrightarrow>
      snd (apply_threshold_filter minima maxima max_threshold min_threshold) = maxima) \<and>
   (min_threshold < 999 \<longrightarrow>
      (\<forall>e \<in> set (fst (apply_threshold_filter minima maxima max_threshold min_threshold)).
          snd e \<le> min_threshold) \<and>
      fst (apply_threshold_filter minima maxima max_threshold min_threshold)
        = filter (\<lambda>e. snd e \<le> min_threshold) minima) \<and>
   (min_threshold \<ge> 999 \<longrightarrow>
      fst (apply_threshold_filter minima maxima max_threshold min_threshold) = minima)"
  by (simp add: apply_threshold_filter_def)

theorem threshold_filter_bounds_witness:
  "(3::real) > 0 \<and> (1::real) < 999 \<and>
   apply_threshold_filter [(1, 0.5), (3, 5)] [(2, 1), (4, 7)] 3 1 = ([(1, 0.5)], [(4, 7)])"
  using threshold_filter_bounds [of 3 "[(1, 0.5), (3, 5)]" "[(2, 1), (4, 7)]" 1]
  by (simp add: prod_eq_iff)

subsection \<open>The count filter\<close>

lemma take_sorted_key_split:
  fixes f :: "'a \<Rightarrow> real"
  assumes "x \<in> set (take k (sort_key f xs))" "y \<in> set (drop k (sort_key f xs))"
  shows "f x \<le> f y"
proof -
  have "sorted (map f (take k (sort_key f xs) @ drop k (sort_key f xs)))"
    by simp
  then show ?thesis
    using assms unfolding map_append sorted_append by auto
qed

lemma mset_minus_take:
  "mset xs - mset (take k (sort_key f xs)) = mset (drop k (sort_key f xs))"
proof -
  have "mset xs = mset (take k (sort_key f xs)) + mset (drop k (sort_key f xs))"
    by (metis append_take_drop_id mset_append mset_sort)
  then show ?thesis by simp
qed

lemma top_by_abs:
  fixes xs :: "extremum list"
  assumes "k \<le> length xs"
  defines "r \<equiv> take k (sorted_by_abs_desc xs)"
  shows "length r = k"
    and "mset r \<subseteq># mset xs"
    and "\<forall>x \<in> set r. \<forall>y \<in># mset xs - mset r. \<bar>snd y\<bar> \<le> \<bar>snd x\<bar>"
    and "sorted (map (\<lambda>x. - \<bar>snd x\<bar>) r)"
    and "\<forall>c. prefix (filter (\<lambda>x. \<bar>snd x\<bar> = c) r) (filter (\<lambda>x. \<bar>snd x\<bar> = c) xs)"
proof -
  let ?f = "\<lambda>x::extremum. - \<bar>snd x\<bar>"
  show "length r = k" using assms by (simp add: sorted_by_abs_desc_def)
  have "mset r \<subseteq># mset (sort_key ?f xs)"
    unfolding r_def sorted_by_abs_desc_def
    by (metis append_take_drop_id mset_append mset_subset_eq_add_left)
  then show "mset r \<subseteq># mset xs" by simp
  show "\<forall>x \<in> set r. \<forall>y \<in># mset xs - mset r. \<bar>snd y\<bar> \<le> \<bar>snd x\<bar>"
    unfolding r_def sorted_by_abs_desc_def mset_minus_take
    using take_sorted_key_split [of _ k ?f xs] by fastforce
  have "sorted (map ?f (sort_key ?f xs))" by simp
  then show "sorted (map ?f r)"
    unfolding r_def sorted_by_abs_desc_def take_map [symmetric] by (rule sorted_wrt_take)
  show "\<forall>c. prefix (filter (\<lambda>x. \<bar>snd x\<bar> = c) r) (filter (\<lambda>x. \<bar>snd x\<bar> = c) xs)"
  proof
    fix c :: real
    have "filter (\<lambda>x. ?f x = - c) (sort_key ?f xs) = filter (\<lambda>x. ?f x = - c) xs"
      by (rule sort_key_stable)
    then have eq: "filter (\<lambda>x. \<bar>snd x\<bar> = c) (sort_key ?f xs) = filter (\<lambda>x. \<bar>snd x\<bar> = c) xs"
      by simp
    have "prefix (filter (\<lambda>x. \<bar>snd x\<bar> = c) r) (filter (\<lambda>x. \<bar>snd x\<bar> = c) (sort_key ?f xs))"
      unfolding r_def sorted_by_abs_desc_def by (rule filter_mono_prefix) (rule take_is_prefix)
    then show "prefix (filter (\<lambda>x. \<bar>snd x\<bar> = c) r) (filter (\<lambda>x. \<bar>snd x\<bar> = c) xs)"
      by (simp add: eq)
  qed
qed


text \<open>
  Claim C8. With the method \<open>alternating\<close>, \<open>enhanced\<close> or \<open>strict\<close> the count filter
  returns both lists unchanged, whatever the limits are. With any other method, a positive
  limit for the maxima and more maxima than the limit, it keeps exactly that many maxima,
  all of them from the input, none with a smaller absolute value than a dropped one, in
  descending order of absolute value, and among the entries of one absolute value the
  earliest ones of the input in their order; the same holds for the minima and their
  limit. With the limit 1, the maxima \<open>[(1,5),(3,6),(5,7)]\<close> and the method \<open>simple\<close> the
  maxima returned are \<open>[(5,7)]\<close>.
\<close>

theorem count_filter_spec:
  "(method \<in> {''alternating'', ''enhanced'', ''strict''} \<longrightarrow>
      filter_results_by_count minima maxima max_count_limit min_count_limit method
        = (minima, maxima)) \<and>
   (method \<notin> {''alternating'', ''enhanced'', ''strict''} \<and>
    max_count_limit > 0 \<and> int (length maxima) > max_count_limit \<longrightarrow>
      (let kept = snd (filter_results_by_count minima maxima max_count_limit min_count_limit method)
       in length kept = nat max_count_limit \<and> mset kept \<subseteq># mset maxima \<and>
          (\<forall>x \<in> set kept. \<forall>y \<in># mset maxima - mset kept. \<bar>snd y\<bar> \<le> \<bar>snd x\<bar>) \<and>
          sorted (map (\<lambda>x. - \<bar>snd x\<bar>) kept) \<and>
          (\<forall>c. prefix (filter (\<lambda>x. \<bar>snd x\<bar> = c) kept) (filter (\<lambda>x. \<bar>snd x\<bar> = c) maxima)))) \<and>
   (method \<notin> {''alternating'', ''enhanced'', ''strict''} \<and>
    min_count_limit > 0 \<and> int (length minima) > min_count_limit \<longrightarrow>
      (let kept = fst (filter_results_by_count minima maxima max_count_limit min_count_limit method)
       in length kept = nat min_count_limit \<and> mset kept \<subseteq># mset minima \<and>
          (\<forall>x \<in> set kept. \<forall>y \<in># mset minima - mset kept. \<bar>snd y\<bar> \<le> \<bar>snd x\<bar>) \<and>
          sorted (map (\<lambda>x. - \<bar>snd x\<bar>) kept) \<and>
          (\<forall>c. prefix (filter (\<lambda>x. \<bar>snd x\<bar> = c) kept) (filter (\<lambda>x. \<bar>snd x\<bar> = c) minima)))) \<and>
   snd (filter_results_by_count minima [(1, 5), (3, 6), (5, 7)] 1 min_count_limit ''simple'')
     = [(5, 7)]"
proof (intro conjI impI)
  assume "method \<in> {''alternating'', ''enhanced'', ''strict''}"
  then show "filter_results_by_count minima maxima max_count_limit min_count_limit method
        = (minima, maxima)"
    by (auto simp: filter_results_by_count_def)
next
  assume h: "method \<notin> {''alternating'', ''enhanced'', ''strict''} \<and>
    max_count_limit > 0 \<and> int (length maxima) > max_count_limit"
  then have eq: "snd (filter_results_by_count minima maxima max_count_limit min_count_limit method)
      = take (nat max_count_limit) (sorted_by_abs_desc maxima)"
    by (simp add: filter_results_by_count_def Let_def)
  from h have le: "nat max_count_limit \<le> length maxima" by linarith
  show "let kept = snd (filter_results_by_count minima maxima max_count_limit min_count_limit method)
       in length kept = nat max_count_limit \<and> mset kept \<subseteq># mset maxima \<and>
          (\<forall>x \<in> set kept. \<forall>y \<in># mset maxima - mset kept. \<bar>snd y\<bar> \<le> \<bar>snd x\<bar>) \<and>
          sorted (map (\<lambda>x. - \<bar>snd x\<bar>) kept) \<and>
          (\<forall>c. prefix (filter (\<lambda>x. \<bar>snd x\<bar> = c) kept) (filter (\<lambda>x. \<bar>snd x\<bar> = c) maxima))"
    unfolding Let_def eq using top_by_abs [OF le] by blast
next
  assume h: "method \<notin> {''alternating'', ''enhanced'', ''strict''} \<and>
    min_count_limit > 0 \<and> int (length minima) > min_count_limit"
  then have eq: "fst (filter_results_by_count minima maxima max_count_limit min_count_limit method)
      = take (nat min_count_limit) (sorted_by_abs_desc minima)"
    by (simp add: filter_results_by_count_def Let_def)
  from h have le: "nat min_count_limit \<le> length minima" by linarith
  show "let kept = fst (filter_results_by_count minima maxima max_count_limit min_count_limit method)
       in length kept = nat min_count_limit \<and> mset kept \<subseteq># mset minima \<and>
          (\<forall>x \<in> set kept. \<forall>y \<in># mset minima - mset kept. \<bar>snd y\<bar> \<le> \<bar>snd x\<bar>) \<and>
          sorted (map (\<lambda>x. - \<bar>snd x\<bar>) kept) \<and>
          (\<forall>c. prefix (filter (\<lambda>x. \<bar>snd x\<bar> = c) kept) (filter (\<lambda>x. \<bar>snd x\<bar> = c) minima))"
    unfolding Let_def eq using top_by_abs [OF le] by blast
next
  show "snd (filter_results_by_count minima [(1, 5), (3, 6), (5, 7)] 1 min_count_limit ''simple'')
     = [(5, 7)]"
    by (simp add: filter_results_by_count_def sorted_by_abs_desc_def Let_def)
qed

theorem count_filter_spec_witness:
  "''enhanced'' \<in> {''alternating'', ''enhanced'', ''strict''} \<and>
   filter_results_by_count [(2, 1)] [(1, 5), (3, 6)] 1 1 ''enhanced'' = ([(2, 1)], [(1, 5), (3, 6)]) \<and>
   ''simple'' \<notin> {''alternating'', ''enhanced'', ''strict''} \<and> (1::int) > 0 \<and>
   int (length [(1, 5 :: real), (3, - 6), (5, 6)]) > 1 \<and>
   int (length [(2, 1 :: real), (4, - 1)]) > 1 \<and>
   length (snd (filter_results_by_count [(2, 1), (4, - 1)] [(1, 5), (3, - 6), (5, 6)] 1 1 ''simple'')) = 1 \<and>
   length (fst (filter_results_by_count [(2, 1), (4, - 1)] [(1, 5), (3, - 6), (5, 6)] 1 1 ''simple'')) = 1"
  using count_filter_spec [of "''enhanced''" "[(2, 1)]" "[(1, 5), (3, 6)]" 1 1]
    count_filter_spec [of "''simple''" "[(2, 1), (4, - 1)]" "[(1, 5), (3, - 6), (5, 6)]" 1 1]
  by (simp add: Let_def)

subsection \<open>Pairing\<close>

lemma foldl_difference_step:
  "foldl (difference_step ms ns) acc is = acc @ map (\<lambda>i. difference_step ms ns [] i ! 0) is"
  by (induction "is" arbitrary: acc) (simp_all add: difference_step_def Let_def)

lemma build_pairs_length:
  "length (build_pairs maxima minima) = min (length maxima) (length minima)"
  by (simp add: build_pairs_def Let_def foldl_difference_step)

lemma build_pairs_nth:
  assumes "i < min (length maxima) (length minima)"
  shows "build_pairs maxima minima ! i =
     \<lparr> pair_number = int i + 1,
       max_index = fst (sort_key fst maxima ! i), max_value = snd (sort_key fst maxima ! i),
       min_index = fst (sort_key fst minima ! i), min_value = snd (sort_key fst minima ! i),
       difference = snd (sort_key fst maxima ! i) - snd (sort_key fst minima ! i) \<rparr>"
  using assms by (simp add: build_pairs_def Let_def foldl_difference_step difference_step_def)

text \<open>
  The pairing writes its pairs into the stored list only after its guard has passed. With
  an empty list of maxima the guard leaves at once, and pairs stored by an earlier run stay:
  one stored pair remains although the smaller of the two lengths is 0.
\<close>

theorem pairing_guard_counterexample:
  "length (difference_results (fst (calculate_differences
      \<lparr> results = Some \<lparr> res_minima = [(1, 2)], res_maxima = [], res_method = ''simple'' \<rparr>,
        difference_results = [\<lparr> pair_number = 1, max_index = 3, max_value = 5,
                                min_index = 1, min_value = 2, difference = 3 \<rparr>] \<rparr>)))
   \<noteq> min (length ([] :: extremum list)) (length [(1, 2) :: extremum])"
  by (simp add: calculate_differences_def)

text \<open>
  Claim C9, as amended. When the stored results hold a non-empty list of maxima and a
  non-empty list of minima, the pairing stores exactly as many pairs as the shorter list
  has entries and reports that number; each list is taken in ascending order of index
  (a stable sort of the stored list), the pair at position \<open>i\<close> has the number \<open>i + 1\<close> and
  combines the entries at position \<open>i\<close> of the two sorted lists, and its difference is its
  maximum value minus its minimum value. When there are no stored results, or one of the
  two lists is empty, the pairing changes nothing and answers with a warning.
\<close>

theorem pairing_spec:
  "(results st = Some r \<and> res_maxima r \<noteq> [] \<and> res_minima r \<noteq> [] \<longrightarrow>
      (let pairs = difference_results (fst (calculate_differences st));
           maxima_sorted = sort_key fst (res_maxima r);
           minima_sorted = sort_key fst (res_minima r)
       in length pairs = min (length (res_maxima r)) (length (res_minima r)) \<and>
          snd (calculate_differences st) = Info (length pairs) \<and>
          sorted (map fst maxima_sorted) \<and> mset maxima_sorted = mset (res_maxima r) \<and>
          sorted (map fst minima_sorted) \<and> mset minima_sorted = mset (res_minima r) \<and>
          (\<forall>i < length pairs.
             pair_number (pairs ! i) = int i + 1 \<and>
             (max_index (pairs ! i), max_value (pairs ! i)) = maxima_sorted ! i \<and>
             (min_index (pairs ! i), min_value (pairs ! i)) = minima_sorted ! i \<and>
             difference (pairs ! i) = max_value (pairs ! i) - min_value (pairs ! i)))) \<and>
   (results st = None \<or> (results st = Some r \<and> (res_maxima r = [] \<or> res_minima r = [])) \<longrightarrow>
      calculate_differences st = (st, Warning))"
proof (intro conjI impI)
  assume h: "results st = Some r \<and> res_maxima r \<noteq> [] \<and> res_minima r \<noteq> []"
  then have eq: "calculate_differences st =
      (st\<lparr> difference_results := build_pairs (res_maxima r) (res_minima r) \<rparr>,
       Info (length (build_pairs (res_maxima r) (res_minima r))))"
    by (simp add: calculate_differences_def Let_def)
  show "let pairs = difference_results (fst (calculate_differences st));
           maxima_sorted = sort_key fst (res_maxima r);
           minima_sorted = sort_key fst (res_minima r)
       in length pairs = min (length (res_maxima r)) (length (res_minima r)) \<and>
          snd (calculate_differences st) = Info (length pairs) \<and>
          sorted (map fst maxima_sorted) \<and> mset maxima_sorted = mset (res_maxima r) \<and>
          sorted (map fst minima_sorted) \<and> mset minima_sorted = mset (res_minima r) \<and>
          (\<forall>i < length pairs.
             pair_number (pairs ! i) = int i + 1 \<and>
             (max_index (pairs ! i), max_value (pairs ! i)) = maxima_sorted ! i \<and>
             (min_index (pairs ! i), min_value (pairs ! i)) = minima_sorted ! i \<and>
             difference (pairs ! i) = max_value (pairs ! i) - min_value (pairs ! i))"
    unfolding Let_def eq
    by (simp add: build_pairs_length build_pairs_nth)
next
  assume "results st = None \<or> (results st = Some r \<and> (res_maxima r = [] \<or> res_minima r = []))"
  then show "calculate_differences st = (st, Warning)"
    by (auto simp: calculate_differences_def)
qed

theorem pairing_spec_witness:
  "difference_results (fst (calculate_differences
      \<lparr> results = Some \<lparr> res_minima = [(4, 1), (2, 0)], res_maxima = [(5, 7), (1, 5), (3, 6)],
                         res_method = ''simple'' \<rparr>,
        difference_results = [] \<rparr>)) ! 0
     = \<lparr> pair_number = 1, max_index = 1, max_value = 5, min_index = 2, min_value = 0,
         difference = 5 \<rparr> \<and>
   calculate_differences \<lparr> results = None, difference_results = [] \<rparr>
     = (\<lparr> results = None, difference_results = [] \<rparr>, Warning)"
  using pairing_spec [where st = "\<lparr> results = Some \<lparr> res_minima = [(4, 1), (2, 0)],
            res_maxima = [(5, 7), (1, 5), (3, 6)], res_method = ''simple'' \<rparr>,
          difference_results = [] \<rparr>"
        and r = "\<lparr> res_minima = [(4, 1), (2, 0)], res_maxima = [(5, 7), (1, 5), (3, 6)],
                  res_method = ''simple'' \<rparr>"]
    pairing_spec [where st = "\<lparr> results = None, difference_results = [] \<rparr>"]
  by (simp add: Let_def calculate_differences_def build_pairs_def difference_step_def)

subsection \<open>Manual selection\<close>

lemma snap_max_fold:
  assumes "foldl (snap_max_step data) b js = r"
  shows "snd b \<le> snd r \<and> (\<forall>j \<in> set js. data ! j \<le> snd r) \<and>
         (r = b \<or> (\<exists>j \<in> set js. r = (int j, data ! j)))"
  using assms
proof (induction js arbitrary: b)
  case Nil
  then show ?case by simp
next
  case (Cons j js)
  from Cons.prems have "foldl (snap_max_step data) (snap_max_step data b j) js = r" by simp
  from Cons.IH [OF this] show ?case
    by (auto simp: snap_max_step_def split: if_splits)
qed

lemma snap_min_fold:
  assumes "foldl (snap_min_step data) b js = r"
  shows "snd r \<le> snd b \<and> (\<forall>j \<in> set js. snd r \<le> data ! j) \<and>
         (r = b \<or> (\<exists>j \<in> set js. r = (int j, data ! j)))"
  using assms
proof (induction js arbitrary: b)
  case Nil
  then show ?case by simp
next
  case (Cons j js)
  from Cons.prems have "foldl (snap_min_step data) (snap_min_step data b j) js = r" by simp
  from Cons.IH [OF this] show ?case
    by (auto simp: snap_min_step_def split: if_splits)
qed

lemma snap_window_set:
  "set (snap_window data a) = {nat (max 0 (a - 10))..<nat (min (int (length data)) (a + 11))}"
  by (simp add: snap_window_def Let_def add.commute)

lemma snap_window_mem:
  assumes "0 \<le> a" "a < int (length data)"
  shows "nat a \<in> set (snap_window data a)"
  using assms unfolding snap_window_set by auto

lemma snap_max_valid:
  assumes "0 \<le> a" "a < int (length data)"
  shows "\<exists>i v. snap_max data a = Inr (i, v) \<and>
           max 0 (a - 10) \<le> i \<and> i < min (int (length data)) (a + 11) \<and> \<bar>i - a\<bar> \<le> 10 \<and>
           v = data ! nat i \<and>
           v = Max ((!) data ` {nat (max 0 (a - 10))..<nat (min (int (length data)) (a + 11))})"
proof -
  let ?W = "{nat (max 0 (a - 10))..<nat (min (int (length data)) (a + 11))}"
  obtain i v where r: "foldl (snap_max_step data) (a, data ! nat a) (snap_window data a) = (i, v)"
    by (cases "foldl (snap_max_step data) (a, data ! nat a) (snap_window data a)")
  have eq: "snap_max data a = Inr (i, v)"
    using assms r by (simp add: snap_max_def py_get_def)
  note f = snap_max_fold [OF r]
  have inW: "nat a \<in> ?W" using snap_window_mem [OF assms] by (simp add: snap_window_set)
  have ub: "\<forall>j \<in> ?W. data ! j \<le> v" using f by (simp add: snap_window_set)
  have pos: "nat i \<in> ?W \<and> 0 \<le> i \<and> v = data ! nat i"
    using f inW assms by (auto simp: snap_window_set)
  then have "v \<in> (!) data ` ?W" by blast
  then have mx: "Max ((!) data ` ?W) = v"
    using ub by (intro Max_eqI) auto
  from pos have rng: "max 0 (a - 10) \<le> i \<and> i < min (int (length data)) (a + 11)"
    by auto
  then have near: "\<bar>i - a\<bar> \<le> 10" by linarith
  show ?thesis
    by (intro exI [of _ i] exI [of _ v]) (use eq pos mx rng near in simp)
qed

lemma snap_min_valid:
  assumes "0 \<le> a" "a < int (length data)"
  shows "\<exists>i v. snap_min data a = Inr (i, v) \<and>
           max 0 (a - 10) \<le> i \<and> i < min (int (length data)) (a + 11) \<and> \<bar>i - a\<bar> \<le> 10 \<and>
           v = data ! nat i \<and>
           v = Min ((!) data ` {nat (max 0 (a - 10))..<nat (min (int (length data)) (a + 11))})"
proof -
  let ?W = "{nat (max 0 (a - 10))..<nat (min (int (length data)) (a + 11))}"
  obtain i v where r: "foldl (snap_min_step data) (a, data ! nat a) (snap_window data a) = (i, v)"
    by (cases "foldl (snap_min_step data) (a, data ! nat a) (snap_window data a)")
  have eq: "snap_min data a = Inr (i, v)"
    using assms r by (simp add: snap_min_def py_get_def)
  note f = snap_min_fold [OF r]
  have inW: "nat a \<in> ?W" using snap_window_mem [OF assms] by (simp add: snap_window_set)
  have lb: "\<forall>j \<in> ?W. v \<le> data ! j" using f by (simp add: snap_window_set)
  have pos: "nat i \<in> ?W \<and> 0 \<le> i \<and> v = data ! nat i"
    using f inW assms by (auto simp: snap_window_set)
  then have "v \<in> (!) data ` ?W" by blast
  then have mn: "Min ((!) data ` ?W) = v"
    using lb by (intro Min_eqI) auto
  from pos have rng: "max 0 (a - 10) \<le> i \<and> i < min (int (length data)) (a + 11)"
    by auto
  then have near: "\<bar>i - a\<bar> \<le> 10" by linarith
  show ?thesis
    by (intro exI [of _ i] exI [of _ v]) (use eq pos mn rng near in simp)
qed

lemma snap_all_set:
  assumes "\<forall>s \<in> set sels. \<exists>p. snap data (fst s) = Inr p"
  shows "\<exists>r. snap_all snap data sels found = Inr r \<and>
           set r = set found \<union> {p. \<exists>s \<in> set sels. snap data (fst s) = Inr p}"
  using assms
proof (induction sels arbitrary: found)
  case Nil
  then show ?case by simp
next
  case (Cons s sels)
  then obtain p where p: "snap data (fst s) = Inr p" by auto
  let ?found = "if p \<in> set found then found else found @ [p]"
  from Cons.prems have "\<forall>s \<in> set sels. \<exists>p. snap data (fst s) = Inr p" by simp
  from Cons.IH [OF this, of ?found] obtain r where
    r: "snap_all snap data sels ?found = Inr r"
       "set r = set ?found \<union> {p. \<exists>s \<in> set sels. snap data (fst s) = Inr p}" by blast
  have "snap_all snap data (s # sels) found = Inr r" using p r(1) by simp
  moreover have "set r = set found \<union> {q. \<exists>t \<in> set (s # sels). snap data (fst t) = Inr q}"
    using r(2) p by auto
  ultimately show ?case by blast
qed

lemma snap_example:
  "snap_max [3, 1, 4, 1, 5, 9, 2, 6, 5, 3, 5, 8, 9, 7, 9] 2 = Inr (5, 9)"
  "snap_min [3, 1, 4, 1, 5, 9, 2, 6, 5, 3, 5, 8, 9, 7, 9] 2 = Inr (1, 1)"
  by code_simp+

text \<open>
  Claim C6. For a selection whose approximate index \<open>a\<close> is an index of the sequence
  (\<open>0 \<le> a < length\<close>), the search for a maximum returns a pair \<open>(i, v)\<close> with \<open>i\<close> in the
  window \<open>[max(0, a-10), min(length, a+11))\<close>, hence within 10 of \<open>a\<close>, with \<open>v\<close> the value
  of the sequence at \<open>i\<close> and \<open>v\<close> the greatest value over that window; the search for a
  minimum returns the same with the least value. When every selection has such an index,
  the search over all selections returns two lists that hold exactly the pairs found for
  the selected maxima and for the selected minima.
\<close>

theorem manual_snap_spec:
  "(0 \<le> a \<and> a < int (length data) \<longrightarrow>
      (\<exists>i v. snap_max data a = Inr (i, v) \<and>
         max 0 (a - 10) \<le> i \<and> i < min (int (length data)) (a + 11) \<and> \<bar>i - a\<bar> \<le> 10 \<and>
         v = data ! nat i \<and>
         v = Max ((!) data ` {nat (max 0 (a - 10))..<nat (min (int (length data)) (a + 11))})) \<and>
      (\<exists>i v. snap_min data a = Inr (i, v) \<and>
         max 0 (a - 10) \<le> i \<and> i < min (int (length data)) (a + 11) \<and> \<bar>i - a\<bar> \<le> 10 \<and>
         v = data ! nat i \<and>
         v = Min ((!) data ` {nat (max 0 (a - 10))..<nat (min (int (length data)) (a + 11))}))) \<and>
   ((\<forall>s \<in> set selected_maxima \<union> set selected_minima. 0 \<le> fst s \<and> fst s < int (length data)) \<longrightarrow>
      (\<exists>minima maxima.
         find_extrema_around_selections data selected_maxima selected_minima = Inr (minima, maxima) \<and>
         set maxima = {p. \<exists>s \<in> set selected_maxima. snap_max data (fst s) = Inr p} \<and>
         set minima = {p. \<exists>s \<in> set selected_minima. snap_min data (fst s) = Inr p}))"
proof (intro conjI impI)
  assume "0 \<le> a \<and> a < int (length data)"
  then show "\<exists>i v. snap_max data a = Inr (i, v) \<and>
         max 0 (a - 10) \<le> i \<and> i < min (int (length data)) (a + 11) \<and> \<bar>i - a\<bar> \<le> 10 \<and>
         v = data ! nat i \<and>
         v = Max ((!) data ` {nat (max 0 (a - 10))..<nat (min (int (length data)) (a + 11))})"
    using snap_max_valid by blast
next
  assume "0 \<le> a \<and> a < int (length data)"
  then show "\<exists>i v. snap_min data a = Inr (i, v) \<and>
         max 0 (a - 10) \<le> i \<and> i < min (int (length data)) (a + 11) \<and> \<bar>i - a\<bar> \<le> 10 \<and>
         v = data ! nat i \<and>
         v = Min ((!) data ` {nat (max 0 (a - 10))..<nat (min (int (length data)) (a + 11))})"
    using snap_min_valid by blast
next
  assume v: "\<forall>s \<in> set selected_maxima \<union> set selected_minima. 0 \<le> fst s \<and> fst s < int (length data)"
  have "\<forall>s \<in> set selected_maxima. \<exists>p. snap_max data (fst s) = Inr p"
    using v snap_max_valid by (metis UnI1)
  from snap_all_set [where snap = snap_max and data = data and found = "[]", OF this]
  obtain maxima where
    mx: "snap_all snap_max data selected_maxima [] = Inr maxima"
        "set maxima = {p. \<exists>s \<in> set selected_maxima. snap_max data (fst s) = Inr p}" by auto
  have "\<forall>s \<in> set selected_minima. \<exists>p. snap_min data (fst s) = Inr p"
    using v snap_min_valid by (metis UnI2)
  from snap_all_set [where snap = snap_min and data = data and found = "[]", OF this]
  obtain minima where
    mn: "snap_all snap_min data selected_minima [] = Inr minima"
        "set minima = {p. \<exists>s \<in> set selected_minima. snap_min data (fst s) = Inr p}" by auto
  have "find_extrema_around_selections data selected_maxima selected_minima = Inr (minima, maxima)"
    by (simp add: find_extrema_around_selections_def mx(1) mn(1))
  then show "\<exists>minima maxima.
         find_extrema_around_selections data selected_maxima selected_minima = Inr (minima, maxima) \<and>
         set maxima = {p. \<exists>s \<in> set selected_maxima. snap_max data (fst s) = Inr p} \<and>
         set minima = {p. \<exists>s \<in> set selected_minima. snap_min data (fst s) = Inr p}"
    using mx(2) mn(2) by blast
qed

theorem manual_snap_spec_witness:
  "(0::int) \<le> 2 \<and> 2 < int (length [3, 1, 4, 1, 5, 9, 2, 6, 5, 3, 5, 8, 9, 7, 9 :: real]) \<and>
   Max ((!) [3, 1, 4, 1, 5, 9, 2, 6, 5, 3, 5, 8, 9, 7, 9 :: real] `
        {nat (max 0 (2 - 10))..<nat (min (int (length [3, 1, 4, 1, 5, 9, 2, 6, 5, 3, 5, 8, 9, 7, 9 :: real])) (2 + 11))}) = 9 \<and>
   Min ((!) [3, 1, 4, 1, 5, 9, 2, 6, 5, 3, 5, 8, 9, 7, 9 :: real] `
        {nat (max 0 (2 - 10))..<nat (min (int (length [3, 1, 4, 1, 5, 9, 2, 6, 5, 3, 5, 8, 9, 7, 9 :: real])) (2 + 11))}) = 1 \<and>
   (\<exists>minima maxima. find_extrema_around_selections [3, 1, 4, 1, 5, 9, 2, 6, 5, 3, 5, 8, 9, 7, 9]
        [(2, 2, 4)] [(2, 2, 4)] = Inr (minima, maxima))"
  using manual_snap_spec [where a = 2 and data = "[3, 1, 4, 1, 5, 9, 2, 6, 5, 3, 5, 8, 9, 7, 9]"
      and selected_maxima = "[(2, 2, 4)]" and selected_minima = "[(2, 2, 4)]"]
  by (auto simp: snap_example)

subsection \<open>Minimum distance between kept extrema\<close>

lemma gap_sorted_le:
  assumes "0 \<le> d" "sorted_wrt (\<lambda>a b. d \<le> fst b - fst a) (xs :: extremum list)" "xs \<noteq> []" "x \<in> set xs"
  shows "fst x \<le> fst (last xs)"
proof -
  from assms(3) obtain ys y where xs: "xs = ys @ [y]" by (metis rev_exhaust)
  with assms show ?thesis by (auto simp: sorted_wrt_append)
qed

lemma remove_close_fold_gaps:
  assumes "0 \<le> d" "acc \<noteq> []" "sorted_wrt (\<lambda>a b. d \<le> fst b - fst a) acc"
  shows "sorted_wrt (\<lambda>a b. d \<le> fst b - fst a) (foldl (remove_close_step d) acc xs)"
  using assms
proof (induction xs arbitrary: acc)
  case Nil
  then show ?case by simp
next
  case (Cons e xs)
  show ?case
  proof (cases "d \<le> fst e - fst (last acc)")
    case True
    have "\<forall>x \<in> set acc. d \<le> fst e - fst x"
    proof
      fix x assume "x \<in> set acc"
      then have "fst x \<le> fst (last acc)"
        using gap_sorted_le Cons.prems by blast
      with True show "d \<le> fst e - fst x" by linarith
    qed
    then have "sorted_wrt (\<lambda>a b. d \<le> fst b - fst a) (acc @ [e])"
      using Cons.prems by (simp add: sorted_wrt_append)
    from Cons.IH [OF Cons.prems(1) _ this] True show ?thesis
      by (simp add: remove_close_step_def)
  next
    case False
    with Cons.IH [OF Cons.prems] show ?thesis
      by (simp add: remove_close_step_def)
  qed
qed

lemma remove_close_gaps:
  assumes "0 \<le> d"
  shows "sorted_wrt (\<lambda>a b. d \<le> fst b - fst a) (remove_close_extrema xs d)"
proof (cases xs)
  case Nil
  then show ?thesis by (simp add: remove_close_extrema_def)
next
  case (Cons x rest)
  then show ?thesis
    using remove_close_fold_gaps [OF assms, of "[x]" rest]
    by (simp add: remove_close_extrema_def)
qed

lemma filter_by_quality_filter:
  "filter_by_quality xs data n m = filter (quality_ok data n m) xs"
  by (simp add: filter_by_quality_def)

lemma min_distance_ge: "2 \<le> min_distance_of data"
  by (simp add: min_distance_of_def)

lemma post_process_gaps:
  "sorted_wrt (\<lambda>a b. min_distance_of data \<le> fst b - fst a)
     (fst (post_process_results minima maxima data ch)) \<and>
   sorted_wrt (\<lambda>a b. min_distance_of data \<le> fst b - fst a)
     (snd (post_process_results minima maxima data ch))"
proof -
  have d: "0 \<le> min_distance_of data" using min_distance_ge [of data] by linarith
  show ?thesis
    by (simp add: post_process_results_def Let_def filter_by_quality_filter
        remove_close_gaps [OF d] sorted_wrt_filter)
qed

lemma gaps_adjacent:
  assumes "sorted_wrt (\<lambda>a b. d \<le> fst b - fst a) (xs :: extremum list)" "Suc i < length xs"
  shows "d \<le> fst (xs ! Suc i) - fst (xs ! i)"
  using sorted_wrt_nth_less [OF assms(1), of i "Suc i"] assms(2) by simp

lemma detect_extrema_cases:
  assumes "detect_extrema data method kw = Inr r"
  shows "r = ([], []) \<or> (\<exists>minima maxima ch. r = post_process_results minima maxima data ch)"
  using assms
  by (auto simp: detect_extrema_def Let_def split: if_splits sum.splits prod.splits)


lemma spacing_example:
  "post_process_results [(1, 5), (2, 6), (5, 7)] [(3, 1), (4, 0)] [0, 5, 1, 6, 2, 7, 0] None
     = ([(1, 5), (5, 7)], [(3, 1)])"
  by code_simp

text \<open>
  Claim C4. In each of the two lists that the post-processing returns, after the
  suppression of close extrema and the quality filter, the indices of every two adjacent
  entries differ by at least \<open>max(2, length div 100)\<close>, where \<open>length\<close> is the length of
  the sequence; the same holds for the two lists of every detection run that returns.
\<close>

theorem minimum_distance_spec:
  "(\<forall>i. Suc i < length (fst (post_process_results minima maxima data ch)) \<longrightarrow>
        max 2 (int (length data) div 100)
          \<le> fst (fst (post_process_results minima maxima data ch) ! Suc i)
            - fst (fst (post_process_results minima maxima data ch) ! i)) \<and>
   (\<forall>i. Suc i < length (snd (post_process_results minima maxima data ch)) \<longrightarrow>
        max 2 (int (length data) div 100)
          \<le> fst (snd (post_process_results minima maxima data ch) ! Suc i)
            - fst (snd (post_process_results minima maxima data ch) ! i)) \<and>
   (detect_extrema data method kw = Inr (mins, maxs) \<longrightarrow>
      (\<forall>i. Suc i < length mins \<longrightarrow>
          max 2 (int (length data) div 100) \<le> fst (mins ! Suc i) - fst (mins ! i)) \<and>
      (\<forall>i. Suc i < length maxs \<longrightarrow>
          max 2 (int (length data) div 100) \<le> fst (maxs ! Suc i) - fst (maxs ! i)))"
proof -
  have g: "\<And>minima maxima ch.
      (\<forall>i. Suc i < length (fst (post_process_results minima maxima data ch)) \<longrightarrow>
        max 2 (int (length data) div 100)
          \<le> fst (fst (post_process_results minima maxima data ch) ! Suc i)
            - fst (fst (post_process_results minima maxima data ch) ! i)) \<and>
      (\<forall>i. Suc i < length (snd (post_process_results minima maxima data ch)) \<longrightarrow>
        max 2 (int (length data) div 100)
          \<le> fst (snd (post_process_results minima maxima data ch) ! Suc i)
            - fst (snd (post_process_results minima maxima data ch) ! i))"
    using post_process_gaps gaps_adjacent unfolding min_distance_of_def by blast
  have "detect_extrema data method kw = Inr (mins, maxs) \<Longrightarrow>
      (\<forall>i. Suc i < length mins \<longrightarrow>
          max 2 (int (length data) div 100) \<le> fst (mins ! Suc i) - fst (mins ! i)) \<and>
      (\<forall>i. Suc i < length maxs \<longrightarrow>
          max 2 (int (length data) div 100) \<le> fst (maxs ! Suc i) - fst (maxs ! i))"
  proof -
    assume "detect_extrema data method kw = Inr (mins, maxs)"
    from detect_extrema_cases [OF this] show ?thesis
    proof
      assume "(mins, maxs) = ([], [])"
      then show ?thesis by simp
    next
      assume "\<exists>minima maxima ch. (mins, maxs) = post_process_results minima maxima data ch"
      then obtain minima maxima ch where
        "(mins, maxs) = post_process_results minima maxima data ch" by blast
      then have "mins = fst (post_process_results minima maxima data ch)"
        "maxs = snd (post_process_results minima maxima data ch)"
        by (metis fst_conv, metis snd_conv)
      then show ?thesis using g [of minima maxima ch] by simp
    qed
  qed
  with g show ?thesis by blast
qed

theorem minimum_distance_spec_witness:
  "Suc 0 < length (fst (post_process_results [(1, 5), (2, 6), (5, 7)] [(3, 1), (4, 0)]
                      [0, 5, 1, 6, 2, 7, 0] None)) \<and>
   max 2 (int (length [0, 5, 1, 6, 2, 7, 0 :: real]) div 100)
     \<le> fst (fst (post_process_results [(1, 5), (2, 6), (5, 7)] [(3, 1), (4, 0)]
                  [0, 5, 1, 6, 2, 7, 0] None) ! Suc 0)
       - fst (fst (post_process_results [(1, 5), (2, 6), (5, 7)] [(3, 1), (4, 0)]
                  [0, 5, 1, 6, 2, 7, 0] None) ! 0) \<and>
   detect_extrema [0, 5, 1, 6, 2, 7, 0] (Some ''simple'')
       \<lparr> kw_threshold = Some 0.0001, kw_window_size = None \<rparr>
     = Inr ([(2, 1), (4, 2)], [(1, 5), (3, 6), (5, 7)]) \<and>
   Suc 0 < length [(2, 1 :: real), (4, 2)] \<and>
   max 2 (int (length [0, 5, 1, 6, 2, 7, 0 :: real]) div 100)
     \<le> fst ([(2 :: int, 1 :: real), (4, 2)] ! Suc 0) - fst ([(2 :: int, 1 :: real), (4, 2)] ! 0)"
  using minimum_distance_spec [of "[(1, 5), (2, 6), (5, 7)]" "[(3, 1), (4, 0)]"
      "[0, 5, 1, 6, 2, 7, 0]" None "Some ''simple''"
      "\<lparr> kw_threshold = Some 0.0001, kw_window_size = None \<rparr>"
      "[(2, 1), (4, 2)]" "[(1, 5), (3, 6), (5, 7)]"]
    simple_scenario_pipeline
  by (simp add: spacing_example)

subsection \<open>Idempotence of the post-processing\<close>

lemma gaps_strict:
  assumes "sorted_wrt (\<lambda>a b. min_distance_of data \<le> fst b - fst a) (xs :: extremum list)"
  shows "sorted (map fst xs) \<and> distinct (map fst xs)"
proof -
  have "sorted_wrt (\<lambda>a b. fst a < fst b) xs"
  proof (rule sorted_wrt_mono_rel [OF _ assms])
    fix a b :: extremum
    assume "min_distance_of data \<le> fst b - fst a"
    then show "fst a < fst b" using min_distance_ge [of data] by linarith
  qed
  then have "sorted_wrt (<) (map fst xs)" by (simp add: sorted_wrt_map)
  then show ?thesis by (simp add: strict_sorted_iff)
qed

lemma update_fresh: "k \<notin> fst ` set al \<Longrightarrow> AList.update k v al = al @ [(k, v)]"
  by (induction al) auto

lemma dict_fold_distinct:
  "distinct (map fst (acc @ xs)) \<Longrightarrow>
   foldl (\<lambda>d e. AList.update (fst e) (snd e) d) acc xs = acc @ xs"
proof (induction xs arbitrary: acc)
  case Nil
  then show ?case by simp
next
  case (Cons e xs)
  from Cons.prems have fresh: "fst e \<notin> fst ` set acc" by auto
  from Cons.prems have "distinct (map fst ((acc @ [e]) @ xs))" by simp
  from Cons.IH [OF this] show ?case by (simp add: update_fresh [OF fresh])
qed

lemma dict_of_distinct: "distinct (map fst xs) \<Longrightarrow> dict_of xs = xs"
  using dict_fold_distinct [of "[]" xs] by (simp add: dict_of_def)

lemma remove_close_fold_id:
  assumes "acc \<noteq> []" "sorted_wrt (\<lambda>a b. d \<le> fst b - fst a) (acc @ xs)"
  shows "foldl (remove_close_step d) acc xs = acc @ xs"
  using assms
proof (induction xs arbitrary: acc)
  case Nil
  then show ?case by simp
next
  case (Cons e xs)
  have "last acc \<in> set acc" using Cons.prems(1) by simp
  then have keep: "d \<le> fst e - fst (last acc)"
    using Cons.prems(2) by (auto simp: sorted_wrt_append)
  have "sorted_wrt (\<lambda>a b. d \<le> fst b - fst a) ((acc @ [e]) @ xs)"
    using Cons.prems(2) by simp
  from Cons.IH [OF _ this] keep show ?case by (simp add: remove_close_step_def)
qed

lemma remove_close_id:
  assumes "sorted_wrt (\<lambda>a b. d \<le> fst b - fst a) xs"
  shows "remove_close_extrema xs d = xs"
proof (cases xs)
  case Nil
  then show ?thesis by (simp add: remove_close_extrema_def)
next
  case (Cons x rest)
  with assms remove_close_fold_id [of "[x]" d rest] show ?thesis
    by (simp add: remove_close_extrema_def)
qed

lemma spacing_stage_id:
  assumes "sorted_wrt (\<lambda>a b. min_distance_of data \<le> fst b - fst a) xs"
  shows "remove_close_extrema (sorted_items (dict_of xs)) (min_distance_of data) = xs"
proof -
  from gaps_strict [OF assms] have "dict_of xs = xs" "sort_key fst xs = xs"
    by (simp_all add: dict_of_distinct sort_key_id_if_sorted)
  then show ?thesis by (simp add: sorted_items_def remove_close_id [OF assms])
qed

lemma spacing_stage_gaps:
  "sorted_wrt (\<lambda>a b. min_distance_of data \<le> fst b - fst a)
     (remove_close_extrema (sorted_items (dict_of xs)) (min_distance_of data))"
proof -
  have "0 \<le> min_distance_of data" using min_distance_ge [of data] by linarith
  then show ?thesis by (rule remove_close_gaps)
qed

text \<open>
  Claim C5. The post-processing is idempotent: applied again to its own two output
  lists, with the same sequence and the same characteristics, it returns them unchanged.
\<close>

theorem post_process_idempotent:
  "post_process_results (fst (post_process_results minima maxima data ch))
      (snd (post_process_results minima maxima data ch)) data ch
   = post_process_results minima maxima data ch"
proof (cases "get_or ch ch_noise_level 0 > 0")
  case True
  let ?n = "get_or ch ch_noise_level 0"
  let ?stage = "\<lambda>xs. remove_close_extrema (sorted_items (dict_of xs)) (min_distance_of data)"
  have r: "post_process_results minima maxima data ch
      = (filter (quality_ok data ?n True) (?stage minima),
         filter (quality_ok data ?n False) (?stage maxima))"
    using True by (simp add: post_process_results_def Let_def filter_by_quality_filter)
  have a: "?stage (filter (quality_ok data ?n True) (?stage minima))
      = filter (quality_ok data ?n True) (?stage minima)"
    by (intro spacing_stage_id sorted_wrt_filter spacing_stage_gaps)
  have b: "?stage (filter (quality_ok data ?n False) (?stage maxima))
      = filter (quality_ok data ?n False) (?stage maxima)"
    by (intro spacing_stage_id sorted_wrt_filter spacing_stage_gaps)
  show ?thesis
    unfolding r
    using True by (simp add: post_process_results_def Let_def filter_by_quality_filter a b)
next
  case False
  let ?stage = "\<lambda>xs. remove_close_extrema (sorted_items (dict_of xs)) (min_distance_of data)"
  have r: "post_process_results minima maxima data ch = (?stage minima, ?stage maxima)"
    using False by (simp add: post_process_results_def Let_def)
  have a: "?stage (?stage minima) = ?stage minima" "?stage (?stage maxima) = ?stage maxima"
    by (intro spacing_stage_id spacing_stage_gaps)+
  show ?thesis
    unfolding r
    using False by (simp add: post_process_results_def Let_def a)
qed

subsection \<open>Disjoint index sets\<close>

lemma index_disjoint_subset:
  assumes "index_disjoint (a, b)" "fst ` set a' \<subseteq> fst ` set a" "fst ` set b' \<subseteq> fst ` set b"
  shows "index_disjoint (a', b')"
proof -
  from assms(1) have "fst ` set a \<inter> fst ` set b = {}" by (simp add: index_disjoint_def)
  with assms(2,3) have "fst ` set a' \<inter> fst ` set b' = {}" by blast
  then show ?thesis by (simp add: index_disjoint_def)
qed

lemma step_keys:
  fixes step :: "extrema \<Rightarrow> nat \<Rightarrow> extrema"
  assumes "step acc i = acc \<or>
           (\<exists>v. step acc i = (fst acc @ [(int i, v)], snd acc)) \<or>
           (\<exists>v. step acc i = (fst acc, snd acc @ [(int i, v)]))"
  shows "(fst ` set (fst (step acc i)) = fst ` set (fst acc) \<and>
          fst ` set (snd (step acc i)) = fst ` set (snd acc)) \<or>
         (fst ` set (fst (step acc i)) = insert (int i) (fst ` set (fst acc)) \<and>
          fst ` set (snd (step acc i)) = fst ` set (snd acc)) \<or>
         (fst ` set (fst (step acc i)) = fst ` set (fst acc) \<and>
          fst ` set (snd (step acc i)) = insert (int i) (fst ` set (snd acc)))"
proof -
  consider (same) "step acc i = acc"
    | (left) v where "step acc i = (fst acc @ [(int i, v)], snd acc)"
    | (right) v where "step acc i = (fst acc, snd acc @ [(int i, v)])"
    using assms by blast
  then show ?thesis
  proof cases
    case same
    then show ?thesis by simp
  next
    case left
    then show ?thesis by simp
  next
    case right
    then show ?thesis by simp
  qed
qed

lemma disjoint_step:
  fixes K1 K2 L1 L2 R :: "int set"
  assumes "(L1 = K1 \<and> L2 = K2) \<or> (L1 = insert k K1 \<and> L2 = K2) \<or> (L1 = K1 \<and> L2 = insert k K2)"
    and "k \<notin> R" "k \<notin> K1 \<union> K2" "(K1 \<union> K2) \<inter> R = {}" "K1 \<inter> K2 = {}"
  shows "(L1 \<union> L2) \<inter> R = {} \<and> L1 \<inter> L2 = {}"
  using assms by auto

lemma one_sided_fold_disjoint:
  fixes step :: "extrema \<Rightarrow> nat \<Rightarrow> extrema"
  assumes step: "\<And>acc i. step acc i = acc \<or>
                   (\<exists>v. step acc i = (fst acc @ [(int i, v)], snd acc)) \<or>
                   (\<exists>v. step acc i = (fst acc, snd acc @ [(int i, v)]))"
    and "distinct is"
    and "(fst ` set (fst acc) \<union> fst ` set (snd acc)) \<inter> int ` set is = {}"
    and "index_disjoint acc"
  shows "index_disjoint (foldl step acc is)"
  using assms(2-)
proof (induction "is" arbitrary: acc)
  case Nil
  then show ?case by simp
next
  case (Cons i rest)
  have fresh: "int i \<notin> int ` set rest" using Cons.prems(1) by auto
  have new: "int i \<notin> fst ` set (fst acc) \<union> fst ` set (snd acc)"
    using Cons.prems(2) by simp
  have old: "(fst ` set (fst acc) \<union> fst ` set (snd acc)) \<inter> int ` set rest = {}"
    using Cons.prems(2) by simp
  have dis0: "fst ` set (fst acc) \<inter> fst ` set (snd acc) = {}"
    using Cons.prems(3) by (simp add: index_disjoint_def)
  note both = disjoint_step [OF step_keys [of step, OF step] fresh new old dis0]
  from both have keys: "(fst ` set (fst (step acc i)) \<union> fst ` set (snd (step acc i)))
      \<inter> int ` set rest = {}" by (rule conjunct1)
  from both have "fst ` set (fst (step acc i)) \<inter> fst ` set (snd (step acc i)) = {}"
    by (rule conjunct2)
  then have dis: "index_disjoint (step acc i)" by (simp add: index_disjoint_def)
  have "distinct rest" using Cons.prems(1) by simp
  from Cons.IH [OF this keys dis] show ?case by simp
qed

lemma fold_from_empty_disjoint:
  fixes step :: "extrema \<Rightarrow> nat \<Rightarrow> extrema"
  assumes "\<And>acc i. step acc i = acc \<or>
                   (\<exists>v. step acc i = (fst acc @ [(int i, v)], snd acc)) \<or>
                   (\<exists>v. step acc i = (fst acc, snd acc @ [(int i, v)]))"
  shows "index_disjoint (foldl step ([], []) [m..<n])"
  by (rule one_sided_fold_disjoint [OF assms]) (simp_all add: index_disjoint_def)

lemma simple_step_one_sided:
  "simple_step data t acc i = acc \<or>
   (\<exists>v. simple_step data t acc i = (fst acc @ [(int i, v)], snd acc)) \<or>
   (\<exists>v. simple_step data t acc i = (fst acc, snd acc @ [(int i, v)]))"
  by (simp add: simple_step_def Let_def)

lemma slope_step_one_sided:
  "slope_step data slopes t acc i = acc \<or>
   (\<exists>v. slope_step data slopes t acc i = (fst acc @ [(int i, v)], snd acc)) \<or>
   (\<exists>v. slope_step data slopes t acc i = (fst acc, snd acc @ [(int i, v)]))"
  by (simp add: slope_step_def Let_def)

lemma alternating_step_one_sided:
  "alternating_step data t acc i = acc \<or>
   (\<exists>v. alternating_step data t acc i = (fst acc @ [(int i, v)], snd acc)) \<or>
   (\<exists>v. alternating_step data t acc i = (fst acc, snd acc @ [(int i, v)]))"
  by (simp add: alternating_step_def Let_def)

lemma not_max_and_min: "\<not> (is_max_at data i \<and> is_min_at data min_threshold i)"
proof
  assume h: "is_max_at data i \<and> is_min_at data min_threshold i"
  have mem: "i + 1 \<in> set [i - 3..<i + 4]" by simp
  from h have "\<forall>j \<in> set [i - 3..<i + 4]. \<not> (j \<noteq> i \<and> data ! j \<ge> data ! i)"
    by (simp add: is_max_at_def list_all_iff)
  from bspec [OF this mem] have lt: "data ! (i + 1) < data ! i" by simp
  from h have "\<forall>j \<in> set [i - 3..<i + 4]. \<not> (j \<noteq> i \<and> data ! j \<le> data ! i)"
    by (simp add: is_min_at_def list_all_iff split: if_splits)
  from bspec [OF this mem] have "data ! i < data ! (i + 1)" by simp
  with lt show False by linarith
qed

lemma potential_step_one_sided:
  "potential_step data mt acc i = acc \<or>
   (\<exists>v. potential_step data mt acc i = (fst acc @ [(int i, v)], snd acc)) \<or>
   (\<exists>v. potential_step data mt acc i = (fst acc, snd acc @ [(int i, v)]))"
  using not_max_and_min [of data i mt] by (auto simp: potential_step_def Let_def)

lemma walk_subset:
  assumes "\<And>acc c. w acc c = acc \<or> w acc c = acc @ [c]"
  shows "set (foldl w acc xs) \<subseteq> set acc \<union> set xs"
proof (induction xs arbitrary: acc)
  case Nil
  then show ?case by simp
next
  case (Cons c xs)
  from Cons.IH [of "w acc c"] assms [of acc c] show ?case by auto
qed

lemma alternating_walk_step_cases:
  "alternating_walk_step t acc c = acc \<or> alternating_walk_step t acc c = acc @ [c]"
  by (simp add: alternating_walk_step_def Let_def)

lemma enhanced_walk_step_cases:
  "enhanced_walk_step t mt acc c = acc \<or> enhanced_walk_step t mt acc c = acc @ [c]"
  by (simp add: enhanced_walk_step_def Let_def)

lemma strict_walk_step_cases:
  "strict_walk_step t mt acc c = acc \<or> strict_walk_step t mt acc c = acc @ [c]"
  by (simp add: strict_walk_step_def Let_def)

lemma split_of_merged:
  assumes "set W \<subseteq> set (merge_tagged maxima minima)"
  shows "set (fst (split_tagged W)) \<subseteq> set minima \<and> set (snd (split_tagged W)) \<subseteq> set maxima"
  using assms by (auto simp: split_tagged_def merge_tagged_def)

lemma walked_candidates_disjoint:
  assumes w: "\<And>acc c. w acc c = acc \<or> w acc c = acc @ [c]"
    and "index_disjoint cands"
  shows "index_disjoint (split_tagged (foldl w [] (merge_tagged (snd cands) (fst cands))))"
proof -
  let ?W = "foldl w [] (merge_tagged (snd cands) (fst cands))"
  have "set ?W \<subseteq> set (merge_tagged (snd cands) (fst cands))"
    using walk_subset [of w "[]", OF w] by simp
  from split_of_merged [OF this]
  have "fst ` set (fst (split_tagged ?W)) \<subseteq> fst ` set (fst cands)"
       "fst ` set (snd (split_tagged ?W)) \<subseteq> fst ` set (snd cands)"
    by blast+
  with index_disjoint_subset [of "fst cands" "snd cands"] assms(2)
  show ?thesis by (metis prod.collapse)
qed

lemma detect_simple_disjoint: "index_disjoint (detect_simple data t)"
  using fold_from_empty_disjoint [of "simple_step data t", OF simple_step_one_sided]
  by (simp add: detect_simple_def index_disjoint_def)

lemma detect_slope_disjoint: "index_disjoint (detect_slope data t)"
  using fold_from_empty_disjoint [of "slope_step data slopes t" for slopes,
      OF slope_step_one_sided]
  by (simp add: detect_slope_def Let_def index_disjoint_def)

lemma detect_alternating_disjoint: "index_disjoint (detect_alternating data t)"
proof (cases "length data < 5")
  case True
  then show ?thesis by (simp add: detect_alternating_def index_disjoint_def)
next
  case False
  have "index_disjoint (foldl (alternating_step data t) ([], []) [2..<length data - 2])"
    by (rule fold_from_empty_disjoint [OF alternating_step_one_sided])
  from walked_candidates_disjoint [of "alternating_walk_step t", OF alternating_walk_step_cases this]
  show ?thesis using False by (simp add: detect_alternating_def Let_def)
qed

lemma detect_enhanced_disjoint: "index_disjoint (detect_enhanced data t)"
proof (cases "length data < 7")
  case True
  then show ?thesis by (simp add: detect_enhanced_def index_disjoint_def)
next
  case False
  let ?mt = "min 0.4 (Min (set data) + (Max (set data) - Min (set data)) * 0.3)"
  have "index_disjoint (foldl (potential_step data ?mt) ([], []) [3..<length data - 3])"
    by (rule fold_from_empty_disjoint [OF potential_step_one_sided])
  from walked_candidates_disjoint [of "enhanced_walk_step t ?mt", OF enhanced_walk_step_cases this]
  show ?thesis using False by (simp add: detect_enhanced_def Let_def)
qed

lemma detect_strict_disjoint: "index_disjoint (detect_strict data t)"
proof (cases "length data < 7")
  case True
  then show ?thesis by (simp add: detect_strict_def index_disjoint_def)
next
  case False
  have "index_disjoint (foldl (potential_step data 0.4) ([], []) [3..<length data - 3])"
    by (rule fold_from_empty_disjoint [OF potential_step_one_sided])
  from walked_candidates_disjoint [of "strict_walk_step t 0.4", OF strict_walk_step_cases this]
  show ?thesis using False by (simp add: detect_strict_def Let_def)
qed


lemma window_loop_disjoint:
  assumes "window_loop data ws is acc = Inr r" "distinct is"
    and "(fst ` set (fst acc) \<union> fst ` set (snd acc)) \<inter> set is = {}"
    and "index_disjoint acc"
  shows "index_disjoint r"
  using assms
proof (induction "is" arbitrary: acc)
  case Nil
  then show ?case by simp
next
  case (Cons i rest)
  from Cons.prems(1) obtain v where v: "py_get data i = Inr v"
    by (cases "py_get data i") simp_all
  from Cons.prems(1) v obtain acc' where
    run: "window_loop data ws rest acc' = Inr r" and
    acc': "acc' = acc \<or> acc' = (fst acc @ [(i, v)], snd acc) \<or>
           acc' = (fst acc, snd acc @ [(i, v)])"
    by (auto simp: Let_def split: if_splits)
  have fresh: "i \<notin> set rest" using Cons.prems(2) by simp
  have new: "i \<notin> fst ` set (fst acc) \<union> fst ` set (snd acc)"
    using Cons.prems(3) by simp
  have old: "(fst ` set (fst acc) \<union> fst ` set (snd acc)) \<inter> set rest = {}"
    using Cons.prems(3) by simp
  have dis0: "fst ` set (fst acc) \<inter> fst ` set (snd acc) = {}"
    using Cons.prems(4) by (simp add: index_disjoint_def)
  have shape: "(fst ` set (fst acc') = fst ` set (fst acc) \<and>
                fst ` set (snd acc') = fst ` set (snd acc)) \<or>
               (fst ` set (fst acc') = insert i (fst ` set (fst acc)) \<and>
                fst ` set (snd acc') = fst ` set (snd acc)) \<or>
               (fst ` set (fst acc') = fst ` set (fst acc) \<and>
                fst ` set (snd acc') = insert i (fst ` set (snd acc)))"
    using acc' by (elim disjE) simp_all
  note both = disjoint_step [OF shape fresh new old dis0]
  from both have keys: "(fst ` set (fst acc') \<union> fst ` set (snd acc')) \<inter> set rest = {}"
    by (rule conjunct1)
  from both have "fst ` set (fst acc') \<inter> fst ` set (snd acc') = {}" by (rule conjunct2)
  then have dis: "index_disjoint acc'" unfolding index_disjoint_def .
  have "distinct rest" using Cons.prems(2) by simp
  from Cons.IH [OF run this keys dis] show ?case .
qed

lemma detect_window_disjoint:
  assumes "detect_window data ws = Inr r"
  shows "index_disjoint r"
proof (cases "int (length data) < ws + 2")
  case True
  with assms show ?thesis by (auto simp: detect_window_def index_disjoint_def)
next
  case False
  with assms have "window_loop data ws [ws .. int (length data) - ws - 1] ([], []) = Inr r"
    by (simp add: detect_window_def)
  from window_loop_disjoint [OF this] show ?thesis by (simp add: index_disjoint_def)
qed

lemma run_method_disjoint:
  assumes "run_method m data kw = Inr r"
  shows "index_disjoint r"
  using assms detect_simple_disjoint detect_window_disjoint detect_slope_disjoint
    detect_alternating_disjoint detect_enhanced_disjoint detect_strict_disjoint
  by (auto simp: run_method_def split: if_splits)

lemma dict_fold_keys:
  "fst ` set (foldl (\<lambda>d e. AList.update (fst e) (snd e) d) acc xs)
     = fst ` set acc \<union> fst ` set xs"
  by (induction xs arbitrary: acc) (auto simp: AList.dom_update)

lemma spacing_stage_keys:
  "fst ` set (remove_close_extrema (sorted_items (dict_of xs)) d) \<subseteq> fst ` set xs"
proof -
  have w: "\<And>acc c. remove_close_step d acc c = acc \<or> remove_close_step d acc c = acc @ [c]"
    by (simp add: remove_close_step_def Let_def)
  have "set (remove_close_extrema ys d) \<subseteq> set ys" for ys
  proof (cases ys)
    case Nil
    then show ?thesis by (simp add: remove_close_extrema_def)
  next
    case (Cons y rest)
    then show ?thesis
      using walk_subset [of "remove_close_step d" "[y]" rest, OF w]
      by (simp add: remove_close_extrema_def)
  qed
  then have "set (remove_close_extrema (sorted_items (dict_of xs)) d) \<subseteq> set (dict_of xs)"
    by (metis sorted_items_def set_sort)
  then have "fst ` set (remove_close_extrema (sorted_items (dict_of xs)) d)
      \<subseteq> fst ` set (dict_of xs)" by blast
  then show ?thesis using dict_fold_keys [of "[]" xs] by (simp add: dict_of_def)
qed

lemma post_process_keys:
  "fst ` set (fst (post_process_results minima maxima data ch)) \<subseteq> fst ` set minima \<and>
   fst ` set (snd (post_process_results minima maxima data ch)) \<subseteq> fst ` set maxima"
proof -
  have f: "fst ` set (filter P ys) \<subseteq> fst ` set ys" for P and ys :: "extremum list" by auto
  show ?thesis
    using spacing_stage_keys [of minima "min_distance_of data"]
      spacing_stage_keys [of maxima "min_distance_of data"]
      f [of "quality_ok data (get_or ch ch_noise_level 0) True"
           "remove_close_extrema (sorted_items (dict_of minima)) (min_distance_of data)"]
      f [of "quality_ok data (get_or ch ch_noise_level 0) False"
           "remove_close_extrema (sorted_items (dict_of maxima)) (min_distance_of data)"]
    by (simp add: post_process_results_def Let_def filter_by_quality_filter) blast
qed

lemma detect_extrema_disjoint:
  assumes "detect_extrema data method kw = Inr r"
  shows "index_disjoint r"
proof (cases "data = [] \<or> length data < 3")
  case True
  with assms show ?thesis by (auto simp: detect_extrema_def index_disjoint_def)
next
  case False
  let ?ch = "analyze_data_characteristics data"
  let ?m = "case method of None \<Rightarrow> select_optimal_method ?ch | Some m \<Rightarrow> m"
  from assms False obtain mins maxs where
    run: "run_method ?m data kw = Inr (mins, maxs)" and
    r: "r = post_process_results mins maxs data ?ch"
    by (auto simp: detect_extrema_def Let_def split: sum.splits prod.splits)
  from run_method_disjoint [OF run] have "index_disjoint (mins, maxs)" .
  from index_disjoint_subset [OF this] post_process_keys [of mins maxs data ?ch]
  have "index_disjoint (fst r, snd r)" unfolding r by blast
  then show ?thesis by simp
qed

lemma window_example: "detect_window [1, 3, 2, 0, 2] 1 = Inr ([(3, 0)], [(1, 3)])"
  by code_simp

text \<open>
  Claim C10. Each of the six strategies (Simple, Window, Slope, Alternating, Enhanced,
  Strict) returns minima and maxima that share no index, Window whenever it returns at
  all; and the two lists of every detection run that returns share no index either.
\<close>

theorem strategies_index_disjoint:
  "index_disjoint (detect_simple data threshold) \<and>
   (\<forall>r. detect_window data window_size = Inr r \<longrightarrow> index_disjoint r) \<and>
   index_disjoint (detect_slope data threshold) \<and>
   index_disjoint (detect_alternating data threshold) \<and>
   index_disjoint (detect_enhanced data threshold) \<and>
   index_disjoint (detect_strict data threshold) \<and>
   (\<forall>r. detect_extrema data method kw = Inr r \<longrightarrow> index_disjoint r)"
  using detect_simple_disjoint detect_window_disjoint detect_slope_disjoint
    detect_alternating_disjoint detect_enhanced_disjoint detect_strict_disjoint
    detect_extrema_disjoint
  by blast

theorem strategies_index_disjoint_witness:
  "detect_window [1, 3, 2, 0, 2] 1 = Inr ([(3, 0)], [(1, 3)]) \<and>
   index_disjoint ([(3, 0)], [(1, 3)]) \<and>
   detect_extrema [0, 5, 1, 6, 2, 7, 0] (Some ''simple'')
       \<lparr> kw_threshold = Some 0.0001, kw_window_size = None \<rparr>
     = Inr ([(2, 1), (4, 2)], [(1, 5), (3, 6), (5, 7)]) \<and>
   index_disjoint ([(2, 1), (4, 2)], [(1, 5), (3, 6), (5, 7)])"
  using strategies_index_disjoint [of "[1, 3, 2, 0, 2]" 0 1 "Some ''simple''"
        "\<lparr> kw_threshold = Some 0.0001, kw_window_size = None \<rparr>"]
    strategies_index_disjoint [of "[0, 5, 1, 6, 2, 7, 0]" 0 1 "Some ''simple''"
        "\<lparr> kw_threshold = Some 0.0001, kw_window_size = None \<rparr>"]
    window_example simple_scenario_pipeline
  by simp

subsection \<open>Alternation before post-processing\<close>

lemma alternates_snoc:
  "alternates (ks @ [k]) \<longleftrightarrow> alternates ks \<and> (ks = [] \<or> last ks \<noteq> k)"
  by (induction ks rule: alternates.induct) auto

lemma walk_alternates:
  assumes w: "\<And>acc c. w acc c = acc \<or> (w acc c = acc @ [c] \<and> (acc = [] \<or> fst c \<noteq> fst (last acc)))"
    and "alternates (map fst acc)"
  shows "alternates (map fst (foldl w acc xs))"
  using assms(2)
proof (induction xs arbitrary: acc)
  case Nil
  then show ?case by simp
next
  case (Cons c xs)
  have "alternates (map fst (w acc c))"
    using w [of acc c] Cons.prems by (auto simp: alternates_snoc last_map)
  from Cons.IH [OF this] show ?case by simp
qed

lemma walk_sorted:
  fixes w :: "tagged list \<Rightarrow> tagged \<Rightarrow> tagged list"
  assumes w: "\<And>acc c. w acc c = acc \<or> w acc c = acc @ [c]"
    and "sorted_wrt (<) (map (\<lambda>x. fst (snd x)) (acc @ xs))"
  shows "sorted_wrt (<) (map (\<lambda>x. fst (snd x)) (foldl w acc xs))"
  using assms(2)
proof (induction xs arbitrary: acc)
  case Nil
  then show ?case by simp
next
  case (Cons c xs)
  have "sorted_wrt (<) (map (\<lambda>x. fst (snd x)) (w acc c @ xs))"
  proof (cases "w acc c = acc")
    case True
    from Cons.prems have "sorted_wrt (<) (map (\<lambda>x. fst (snd x)) (acc @ xs))"
      by (simp add: sorted_wrt_append)
    with True show ?thesis by simp
  next
    case False
    with w [of acc c] have "w acc c = acc @ [c]" by blast
    with Cons.prems show ?thesis by simp
  qed
  from Cons.IH [OF this] show ?case by simp
qed

lemma filter_key_single:
  "distinct (map f xs) \<Longrightarrow> k \<in> set xs \<Longrightarrow> filter (\<lambda>x. f k = f x) xs = [k]"
proof (induction xs)
  case Nil
  then show ?case by simp
next
  case (Cons x xs)
  show ?case
  proof (cases "k = x")
    case True
    have "filter (\<lambda>y. f x = f y) xs = []"
      using Cons.prems(1) by (auto simp: filter_empty_conv)
    with True show ?thesis by simp
  next
    case False
    with Cons.prems(2) have kin: "k \<in> set xs" by simp
    then have "f k \<in> f ` set xs" by (rule imageI)
    moreover have "f x \<notin> f ` set xs" using Cons.prems(1) by simp
    ultimately have "f k \<noteq> f x" by metis
    with Cons.IH kin Cons.prems(1) show ?thesis by simp
  qed
qed

lemma sort_key_permutation:
  fixes f :: "'a \<Rightarrow> int"
  assumes "mset ys = mset xs" "sorted_wrt (<) (map f xs)"
  shows "sort_key f ys = xs"
proof (rule properties_for_sort_key)
  show "mset xs = mset ys" using assms(1) by simp
  show "sorted (map f xs)" using assms(2) by (simp add: strict_sorted_iff)
  fix k assume k: "k \<in> set xs"
  have dx: "distinct (map f xs)" using assms(2) by (simp add: strict_sorted_iff)
  have "mset (map f ys) = mset (map f xs)" using assms(1) by (metis mset_map)
  then have dy: "distinct (map f ys)" using dx mset_eq_imp_distinct_iff by blast
  have "k \<in> set ys" using k assms(1) by (metis mset_eq_setD)
  then have "filter (\<lambda>x. f k = f x) ys = [k]" using dy by (rule filter_key_single [rotated])
  moreover have "filter (\<lambda>x. f k = f x) xs = [k]" using dx k by (rule filter_key_single)
  ultimately show "filter (\<lambda>x. f k = f x) xs = filter (\<lambda>x. f k = f x) ys" by simp
qed

lemma retag_filter:
  "map (Pair K) (map snd (filter (\<lambda>x. fst x = K) W)) = filter (\<lambda>x. fst x = K) W"
  by (induction W) auto

lemma kind_partition:
  "mset (filter (\<lambda>x. fst x = MinK) W @ filter (\<lambda>x. fst x = MaxK) W) = mset (W :: tagged list)"
proof (induction W)
  case Nil
  then show ?case by simp
next
  case (Cons x W)
  then show ?case by (cases "fst x") simp_all
qed

lemma kinds_of_split:
  assumes "sorted_wrt (<) (map (\<lambda>x. fst (snd x)) (W :: tagged list))"
  shows "kinds_in_index_order (fst (split_tagged W)) (snd (split_tagged W)) = map fst W"
proof -
  have "sort_key (\<lambda>x. fst (snd x))
          (filter (\<lambda>x. fst x = MinK) W @ filter (\<lambda>x. fst x = MaxK) W) = W"
    using kind_partition assms by (rule sort_key_permutation)
  then show ?thesis
    unfolding kinds_in_index_order_def split_tagged_def fst_conv snd_conv retag_filter
    by simp
qed


lemma keys_step:
  fixes K1 K2 L1 L2 R :: "int set"
  assumes "(L1 = K1 \<and> L2 = K2) \<or> (L1 = insert k K1 \<and> L2 = K2) \<or> (L1 = K1 \<and> L2 = insert k K2)"
    and "k \<notin> R" "(K1 \<union> K2) \<inter> R = {}"
  shows "(L1 \<union> L2) \<inter> R = {}"
  using assms by auto

lemma one_sided_fold_distinct:
  fixes step :: "extrema \<Rightarrow> nat \<Rightarrow> extrema"
  assumes step: "\<And>acc i. step acc i = acc \<or>
                   (\<exists>v. step acc i = (fst acc @ [(int i, v)], snd acc)) \<or>
                   (\<exists>v. step acc i = (fst acc, snd acc @ [(int i, v)]))"
    and "distinct is"
    and "(fst ` set (fst acc) \<union> fst ` set (snd acc)) \<inter> int ` set is = {}"
    and "distinct (map fst (fst acc)) \<and> distinct (map fst (snd acc))"
  shows "distinct (map fst (fst (foldl step acc is))) \<and>
         distinct (map fst (snd (foldl step acc is)))"
  using assms(2-)
proof (induction "is" arbitrary: acc)
  case Nil
  then show ?case by simp
next
  case (Cons i rest)
  have fresh: "int i \<notin> int ` set rest" using Cons.prems(1) by auto
  have new: "int i \<notin> fst ` set (fst acc)" "int i \<notin> fst ` set (snd acc)"
    using Cons.prems(2) by simp_all
  have old: "(fst ` set (fst acc) \<union> fst ` set (snd acc)) \<inter> int ` set rest = {}"
    using Cons.prems(2) by simp
  have keys: "(fst ` set (fst (step acc i)) \<union> fst ` set (snd (step acc i)))
      \<inter> int ` set rest = {}"
    by (rule keys_step [OF step_keys [of step, OF step] fresh old])
  consider (same) "step acc i = acc"
    | (left) v where "step acc i = (fst acc @ [(int i, v)], snd acc)"
    | (right) v where "step acc i = (fst acc, snd acc @ [(int i, v)])"
    using step [of acc i] by blast
  then have dist: "distinct (map fst (fst (step acc i))) \<and> distinct (map fst (snd (step acc i)))"
  proof cases
    case same
    with Cons.prems(3) show ?thesis by simp
  next
    case left
    with Cons.prems(3) new(1) show ?thesis by simp
  next
    case right
    with Cons.prems(3) new(2) show ?thesis by simp
  qed
  have "distinct rest" using Cons.prems(1) by simp
  from Cons.IH [OF this keys dist] show ?case by simp
qed

lemma tagged_keys:
  "map (\<lambda>x. fst (snd x)) (map (\<lambda>(idx, val). (K, idx, val)) xs) = map fst xs"
  by (induction xs) auto

lemma merged_strictly_sorted:
  assumes "distinct (map fst minima)" "distinct (map fst maxima)"
    and "index_disjoint (minima, maxima)"
  shows "sorted_wrt (<) (map (\<lambda>x. fst (snd x)) (merge_tagged maxima minima))"
proof -
  let ?xs = "map (\<lambda>(idx, val). (MaxK, idx, val)) maxima @ map (\<lambda>(idx, val). (MinK, idx, val)) minima"
  let ?key = "\<lambda>x :: tagged. fst (snd x)"
  have k: "map ?key ?xs = map fst maxima @ map fst minima"
    unfolding map_append tagged_keys ..
  have "fst ` set minima \<inter> fst ` set maxima = {}"
    using assms(3) by (simp add: index_disjoint_def)
  then have "set (map fst maxima) \<inter> set (map fst minima) = {}"
    unfolding set_map by blast
  with assms(1,2) have "distinct (map fst maxima @ map fst minima)"
    unfolding distinct_append by blast
  then have d: "distinct (map ?key ?xs)" unfolding k .
  have "mset (map ?key (sort_key ?key ?xs)) = mset (map ?key ?xs)"
    unfolding mset_map mset_sort ..
  from mset_eq_imp_distinct_iff [OF this] d
  have "distinct (map ?key (sort_key ?key ?xs))" by blast
  moreover have "sorted (map ?key (sort_key ?key ?xs))"
    by (rule sorted_sort_key)
  ultimately have "sorted_wrt (<) (map ?key (sort_key ?key ?xs))"
    unfolding strict_sorted_iff by blast
  then show ?thesis unfolding merge_tagged_def .
qed

lemma candidates_well_formed:
  fixes step :: "extrema \<Rightarrow> nat \<Rightarrow> extrema"
  assumes "\<And>acc i. step acc i = acc \<or>
                   (\<exists>v. step acc i = (fst acc @ [(int i, v)], snd acc)) \<or>
                   (\<exists>v. step acc i = (fst acc, snd acc @ [(int i, v)]))"
  shows "sorted_wrt (<) (map (\<lambda>x. fst (snd x))
           (merge_tagged (snd (foldl step ([], []) [m..<n])) (fst (foldl step ([], []) [m..<n]))))"
proof -
  let ?c = "foldl step ([], []) [m..<n]"
  have "distinct (map fst (fst ?c)) \<and> distinct (map fst (snd ?c))"
    by (rule one_sided_fold_distinct [OF assms]) simp_all
  moreover have "index_disjoint (fst ?c, snd ?c)"
    using fold_from_empty_disjoint [of step, OF assms] by simp
  ultimately show ?thesis using merged_strictly_sorted by blast
qed

lemma walked_candidates_alternate:
  fixes w :: "tagged list \<Rightarrow> tagged \<Rightarrow> tagged list"
  assumes w: "\<And>acc c. w acc c = acc \<or> (w acc c = acc @ [c] \<and> (acc = [] \<or> fst c \<noteq> fst (last acc)))"
    and "sorted_wrt (<) (map (\<lambda>x. fst (snd x)) merged)"
  shows "alternates (kinds_in_index_order (fst (split_tagged (foldl w [] merged)))
                                         (snd (split_tagged (foldl w [] merged))))"
proof -
  have w': "\<And>acc c. w acc c = acc \<or> w acc c = acc @ [c]" using w by blast
  have "sorted_wrt (<) (map (\<lambda>x. fst (snd x)) (foldl w [] merged))"
    using walk_sorted [of w "[]" merged, OF w'] assms(2) by simp
  from kinds_of_split [OF this] walk_alternates [of w "[]" merged, OF w]
  show ?thesis by simp
qed

lemma alternating_walk_step_alt:
  "alternating_walk_step t acc c = acc \<or>
   (alternating_walk_step t acc c = acc @ [c] \<and> (acc = [] \<or> fst c \<noteq> fst (last acc)))"
  by (simp add: alternating_walk_step_def Let_def)

lemma enhanced_walk_step_alt:
  "enhanced_walk_step t mt acc c = acc \<or>
   (enhanced_walk_step t mt acc c = acc @ [c] \<and> (acc = [] \<or> fst c \<noteq> fst (last acc)))"
  by (simp add: enhanced_walk_step_def Let_def)

lemma strict_walk_step_alt:
  "strict_walk_step t mt acc c = acc \<or>
   (strict_walk_step t mt acc c = acc @ [c] \<and> (acc = [] \<or> fst c \<noteq> fst (last acc)))"
  by (simp add: strict_walk_step_def Let_def)

lemma no_extrema_alternate: "alternates (kinds_in_index_order [] [])"
  by (simp add: kinds_in_index_order_def)

text \<open>
  What the three alternating strategies themselves return does alternate: the accepted
  candidates are in ascending order of index, a candidate is accepted only when its kind
  differs from the last accepted one, and splitting the accepted list by kind and reading
  the two parts in index order gives the accepted list back.
\<close>

lemma strategies_alternate_before_refinement:
  "alternates (kinds_in_index_order (fst (detect_alternating data threshold))
                                    (snd (detect_alternating data threshold))) \<and>
   alternates (kinds_in_index_order (fst (detect_enhanced data threshold))
                                    (snd (detect_enhanced data threshold))) \<and>
   alternates (kinds_in_index_order (fst (detect_strict data threshold))
                                    (snd (detect_strict data threshold)))"
proof (intro conjI)
  show "alternates (kinds_in_index_order (fst (detect_alternating data threshold))
                                         (snd (detect_alternating data threshold)))"
  proof (cases "length data < 5")
    case True
    then show ?thesis by (simp add: detect_alternating_def no_extrema_alternate)
  next
    case False
    from walked_candidates_alternate [of "alternating_walk_step threshold",
        OF alternating_walk_step_alt
           candidates_well_formed [of "alternating_step data threshold",
             OF alternating_step_one_sided]]
    show ?thesis using False by (simp add: detect_alternating_def Let_def)
  qed
next
  show "alternates (kinds_in_index_order (fst (detect_enhanced data threshold))
                                         (snd (detect_enhanced data threshold)))"
  proof (cases "length data < 7")
    case True
    then show ?thesis by (simp add: detect_enhanced_def no_extrema_alternate)
  next
    case False
    from walked_candidates_alternate [of "enhanced_walk_step threshold mt" for mt,
        OF enhanced_walk_step_alt
           candidates_well_formed [of "potential_step data mt" for mt,
             OF potential_step_one_sided]]
    show ?thesis using False by (simp add: detect_enhanced_def Let_def)
  qed
next
  show "alternates (kinds_in_index_order (fst (detect_strict data threshold))
                                         (snd (detect_strict data threshold)))"
  proof (cases "length data < 7")
    case True
    then show ?thesis by (simp add: detect_strict_def no_extrema_alternate)
  next
    case False
    from walked_candidates_alternate [of "strict_walk_step threshold mt" for mt,
        OF strict_walk_step_alt
           candidates_well_formed [of "potential_step data mt" for mt,
             OF potential_step_one_sided]]
    show ?thesis using False by (simp add: detect_strict_def Let_def)
  qed
qed


subsection \<open>Alternation after post-processing\<close>

lemma spike_candidates:
  "detect_alternating
     [0, 0, 10, 0, 0, - 1, 0, 0, - 100, 0, 0, 10, 0, 0, 0, 0, 0, 0, 0, 0, 0, 0, 0, 0, 0, 0, 0, 0, 0, 0]
     0.0001
   = ([(5, - 1)], [(2, 10), (11, 10)])"
  by code_simp

lemma spike_diffs:
  "np_diff [0, 0, 10, 0, 0, - 1, 0, 0, - 100, 0, 0, 10, 0, 0, 0, 0, 0, 0, 0, 0, 0, 0, 0, 0, 0, 0, 0, 0, 0, 0]
   = [0, 10, - 10, 0, - 1, 1, 0, - 100, 100, 0, 10, - 10, 0, 0, 0, 0, 0, 0, 0, 0, 0, 0, 0, 0, 0, 0, 0, 0, 0]"
  by simp

lemma spike_noise:
  "np_std [0, 10, - 10, 0, - 1, 1, 0, - 100, 100, 0, 10, - 10, 0, 0, 0, 0, 0, 0, 0, 0, 0, 0, 0, 0, 0, 0, 0, 0, 0]
   = sqrt (20402 / 29)"
  by (simp add: np_std_def np_mean_def power2_eq_square)

lemma spike_noise_bounds: "0 < sqrt (20402 / 29)" "sqrt (20402 / 29) < 30"
proof -
  show "0 < sqrt (20402 / 29)" by simp
  have "sqrt (20402 / 29) < sqrt (30\<^sup>2)"
    by (rule real_sqrt_less_mono) simp
  then show "sqrt (20402 / 29) < 30" by simp
qed

lemma spike_spacing:
  "min_distance_of [0, 0, 10, 0, 0, - 1, 0, 0, - 100, 0, 0, 10, 0, 0, 0, 0, 0, 0, 0, 0, 0, 0, 0, 0, 0, 0, 0, 0, 0, 0] = 2"
  "remove_close_extrema (sorted_items (dict_of [(5, - 1)])) 2 = [(5, - 1)]"
  "remove_close_extrema (sorted_items (dict_of [(2, 10), (11, 10)])) 2 = [(2, 10), (11, 10)]"
  by code_simp+

lemma spike_windows:
  "local_data_of [0, 0, 10, 0, 0, - 1, 0, 0, - 100, 0, 0, 10, 0, 0, 0, 0, 0, 0, 0, 0, 0, 0, 0, 0, 0, 0, 0, 0, 0, 0] 5
     = [10, 0, 0, - 1, 0, 0, - 100]"
  "local_data_of [0, 0, 10, 0, 0, - 1, 0, 0, - 100, 0, 0, 10, 0, 0, 0, 0, 0, 0, 0, 0, 0, 0, 0, 0, 0, 0, 0, 0, 0, 0] 2
     = [0, 0, 10, 0, 0, - 1]"
  "local_data_of [0, 0, 10, 0, 0, - 1, 0, 0, - 100, 0, 0, 10, 0, 0, 0, 0, 0, 0, 0, 0, 0, 0, 0, 0, 0, 0, 0, 0, 0, 0] 11
     = [- 100, 0, 0, 10, 0, 0, 0]"
  by code_simp+

lemma spike_quality:
  "filter_by_quality [(5, - 1)]
     [0, 0, 10, 0, 0, - 1, 0, 0, - 100, 0, 0, 10, 0, 0, 0, 0, 0, 0, 0, 0, 0, 0, 0, 0, 0, 0, 0, 0, 0, 0]
     (sqrt (20402 / 29)) True = []"
  "filter_by_quality [(2, 10), (11, 10)]
     [0, 0, 10, 0, 0, - 1, 0, 0, - 100, 0, 0, 10, 0, 0, 0, 0, 0, 0, 0, 0, 0, 0, 0, 0, 0, 0, 0, 0, 0, 0]
     (sqrt (20402 / 29)) False = [(2, 10), (11, 10)]"
  using spike_noise_bounds
  by (simp_all add: filter_by_quality_def quality_ok_def spike_windows)

lemma spike_refine:
  "post_process_results [(5, - 1)] [(2, 10), (11, 10)]
     [0, 0, 10, 0, 0, - 1, 0, 0, - 100, 0, 0, 10, 0, 0, 0, 0, 0, 0, 0, 0, 0, 0, 0, 0, 0, 0, 0, 0, 0, 0]
     (analyze_data_characteristics
        [0, 0, 10, 0, 0, - 1, 0, 0, - 100, 0, 0, 10, 0, 0, 0, 0, 0, 0, 0, 0, 0, 0, 0, 0, 0, 0, 0, 0, 0, 0])
   = ([], [(2, 10), (11, 10)])"
  unfolding post_process_results_def
  using spike_noise_bounds(1)
  by (simp add: noise_level_of_analysis spike_diffs spike_noise spike_spacing spike_quality
      del: np_diff.simps)

lemma spike_kinds:
  "kinds_in_index_order [(5, - 1)] [(2, 10), (11, 10)] = [MaxK, MinK, MaxK]"
  "kinds_in_index_order [] [(2, 10), (11, 10)] = [MaxK, MaxK]"
  by code_simp+

text \<open>
  Claim C1 says that a run with the alternating, enhanced or strict strategy returns
  minima and maxima whose kinds alternate in index order. The code breaks this on a
  sequence of 30 values with spikes at the indices 2, 5, 8 and 11. The Alternating
  strategy itself returns the maximum at 2, the minimum at 5 and the maximum at 11, which
  alternate. The post-processing then filters each kind on its own: the minimum at 5 fails
  the quality test, because the deeper value at index 8 lies in its window of radius 3, and
  the run returns the two maxima at 2 and 11 with no minimum between them.
\<close>

theorem alternating_run_loses_alternation:
  "detect_alternating
     [0, 0, 10, 0, 0, - 1, 0, 0, - 100, 0, 0, 10, 0, 0, 0, 0, 0, 0, 0, 0, 0, 0, 0, 0, 0, 0, 0, 0, 0, 0]
     0.0001
   = ([(5, - 1)], [(2, 10), (11, 10)]) \<and>
   alternates (kinds_in_index_order [(5, - 1)] [(2, 10), (11, 10)]) \<and>
   detect_extrema
     [0, 0, 10, 0, 0, - 1, 0, 0, - 100, 0, 0, 10, 0, 0, 0, 0, 0, 0, 0, 0, 0, 0, 0, 0, 0, 0, 0, 0, 0, 0]
     (Some ''alternating'') \<lparr> kw_threshold = Some 0.0001, kw_window_size = Some 3 \<rparr>
   = Inr ([], [(2, 10), (11, 10)]) \<and>
   \<not> alternates (kinds_in_index_order [] [(2, 10), (11, 10)])"
  using spike_candidates spike_refine
  by (simp add: detect_extrema_def run_method_def threshold_of_def spike_kinds)

end
